theory Spec2Isabelle
  imports Complex_Main "HOL-Library.Sublist"
begin

section \<open>Market data: indicator derivation and the intraday iterator\<close>

text \<open>
  A shallow embedding of \<^verbatim>\<open>src/aggregation/market_data.py\<close>: the method
  \<^verbatim>\<open>MarketData.preprocess_data\<close> (of which \<^verbatim>\<open>HistoricalData.preprocess_data\<close>
  is a verbatim copy) and the iterator \<^verbatim>\<open>IntradayData.has_next\<close> / \<^verbatim>\<open>next\<close>.

  The program computes on pandas float64 columns. A cell is modelled by the type \<open>fval\<close>:
  a finite value, the two infinities, or \<open>NaN\<close>. pandas has no null of its own in a
  float64 column: a missing cell is \<open>NaN\<close>, and \<^verbatim>\<open>isna\<close> is the test for it. The special
  values follow IEEE 754 (\<open>x / 0\<close>, \<open>\<infinity> - \<infinity>\<close>, \<open>0 / 0\<close>, comparisons with \<open>NaN\<close>).
  Arithmetic on finite values is exact (type \<open>real\<close>): rounding, overflow to infinity and
  the sign of zero are not modelled.
\<close>

subsection \<open>Float cells\<close>

datatype fval = Fin real | PInf | NInf | NaN

fun isna :: "fval \<Rightarrow> bool" where
  "isna NaN = True"
| "isna _ = False"

fun is_fin :: "fval \<Rightarrow> bool" where
  "is_fin (Fin _) = True"
| "is_fin _ = False"

fun val :: "fval \<Rightarrow> real" where
  "val (Fin a) = a"
| "val _ = 0"

fun fneg :: "fval \<Rightarrow> fval" where
  "fneg (Fin a) = Fin (- a)"
| "fneg PInf = NInf"
| "fneg NInf = PInf"
| "fneg NaN = NaN"

fun fadd :: "fval \<Rightarrow> fval \<Rightarrow> fval" where
  "fadd (Fin a) (Fin b) = Fin (a + b)"
| "fadd NaN _ = NaN"
| "fadd _ NaN = NaN"
| "fadd PInf NInf = NaN"
| "fadd NInf PInf = NaN"
| "fadd PInf _ = PInf"
| "fadd _ PInf = PInf"
| "fadd NInf _ = NInf"
| "fadd _ NInf = NInf"

definition fsub :: "fval \<Rightarrow> fval \<Rightarrow> fval" where
  "fsub a b = fadd a (fneg b)"

fun fmul :: "fval \<Rightarrow> fval \<Rightarrow> fval" where
  "fmul (Fin a) (Fin b) = Fin (a * b)"
| "fmul NaN _ = NaN"
| "fmul _ NaN = NaN"
| "fmul PInf (Fin b) = (if b = 0 then NaN else if 0 < b then PInf else NInf)"
| "fmul NInf (Fin b) = (if b = 0 then NaN else if 0 < b then NInf else PInf)"
| "fmul (Fin a) PInf = (if a = 0 then NaN else if 0 < a then PInf else NInf)"
| "fmul (Fin a) NInf = (if a = 0 then NaN else if 0 < a then NInf else PInf)"
| "fmul PInf PInf = PInf"
| "fmul NInf NInf = PInf"
| "fmul PInf NInf = NInf"
| "fmul NInf PInf = NInf"

text \<open>
  Division of numpy arrays raises nothing: a finite nonzero value over zero is an
  infinity and zero over zero is \<open>NaN\<close>. The zero divisor is taken as \<open>+0\<close>.
\<close>

fun fdiv :: "fval \<Rightarrow> fval \<Rightarrow> fval" where
  "fdiv (Fin a) (Fin b) =
     (if b = 0 then (if a = 0 then NaN else if 0 < a then PInf else NInf)
      else Fin (a / b))"
| "fdiv NaN _ = NaN"
| "fdiv _ NaN = NaN"
| "fdiv (Fin a) PInf = Fin 0"
| "fdiv (Fin a) NInf = Fin 0"
| "fdiv PInf (Fin b) = (if 0 \<le> b then PInf else NInf)"
| "fdiv NInf (Fin b) = (if 0 \<le> b then NInf else PInf)"
| "fdiv PInf PInf = NaN"
| "fdiv PInf NInf = NaN"
| "fdiv NInf PInf = NaN"
| "fdiv NInf NInf = NaN"

fun fsqrt :: "fval \<Rightarrow> fval" where
  "fsqrt (Fin a) = (if a < 0 then NaN else Fin (sqrt a))"
| "fsqrt PInf = PInf"
| "fsqrt NInf = NaN"
| "fsqrt NaN = NaN"

text \<open>Comparison \<open>a < b\<close>: false as soon as one side is \<open>NaN\<close>.\<close>

fun flt :: "fval \<Rightarrow> fval \<Rightarrow> bool" where
  "flt (Fin a) (Fin b) = (a < b)"
| "flt NaN _ = False"
| "flt _ NaN = False"
| "flt NInf NInf = False"
| "flt NInf _ = True"
| "flt PInf _ = False"
| "flt (Fin a) PInf = True"
| "flt (Fin a) NInf = False"

definition fgt :: "fval \<Rightarrow> fval \<Rightarrow> bool" where
  "fgt a b = flt b a"

subsection \<open>Exceptions\<close>

datatype py_error =
    CloseColumnMissing
  | FrameAssignedToColumn
  | AttributeError
  | TypeError
  | IndexError
  | StopIteration

subsection \<open>pandas series\<close>

text \<open>
  A series is the list of its cells in row order. Two series taken from the same frame
  carry the same index object, so pandas combines them cell by cell, without
  realignment, whatever the index labels are.
\<close>

type_synonym series = "fval list"

text \<open>\<^verbatim>\<open>Series.diff()\<close>: the first cell is \<open>NaN\<close>, cell \<open>i\<close> is \<open>x[i] - x[i-1]\<close>.\<close>

definition diff :: "series \<Rightarrow> series" where
  "diff xs = (case xs of [] \<Rightarrow> [] | _ # t \<Rightarrow> NaN # map (\<lambda>(p, c). fsub c p) (zip xs t))"

text \<open>\<^verbatim>\<open>Series.where(cond, other)\<close>: keep the cell where \<open>cond\<close> holds, else \<open>other\<close>.\<close>

definition where_series :: "series \<Rightarrow> bool list \<Rightarrow> fval \<Rightarrow> series" where
  "where_series xs cond other = map (\<lambda>(x, c). if c then x else other) (zip xs cond)"

text \<open>
  \<^verbatim>\<open>Series.rolling(window=w)\<close>: the window at row \<open>i\<close> holds the cells of rows
  \<open>i-w+1 .. i\<close> (fewer at the start of the series). pandas replaces \<open>\<plusminus>\<infinity>\<close> by \<open>NaN\<close>
  before it computes a window statistic, and the statistic skips \<open>NaN\<close>: the observations
  of a window are its finite cells. \<open>min_periods\<close> defaults to \<open>w\<close>: the statistic is
  \<open>NaN\<close> unless the window holds at least \<open>w\<close> observations, and it is computed over
  those.

  The statistic itself is given by its mathematical value, the mean and the standard
  deviation of the observations in exact arithmetic. pandas computes it in float64 with
  running sums: its result agrees with this value up to rounding, and only as long as
  no intermediate sum leaves the float64 range. The statements below therefore keep to
  what does not depend on the last digits: which cells are null, the range of a value,
  and values that float64 computes exactly.
\<close>

definition window :: "nat \<Rightarrow> 'a list \<Rightarrow> nat \<Rightarrow> 'a list" where
  "window w xs i = drop (Suc i - w) (take (Suc i) xs)"

definition observations :: "series \<Rightarrow> fval list" where
  "observations xs = filter is_fin xs"

definition fsum :: "fval list \<Rightarrow> fval" where
  "fsum v = foldr fadd v (Fin 0)"

definition mean :: "fval list \<Rightarrow> fval" where
  "mean v = fdiv (fsum v) (Fin (real (length v)))"

definition rolling_mean :: "nat \<Rightarrow> series \<Rightarrow> series" where
  "rolling_mean w xs =
     map (\<lambda>i. let v = observations (window w xs i)
               in if length v < w then NaN else mean v)
         [0..<length xs]"

text \<open>\<^verbatim>\<open>.std()\<close> has \<open>ddof = 1\<close>: the squared deviations are divided by \<open>n - 1\<close>.\<close>

definition var_ddof1 :: "fval list \<Rightarrow> fval" where
  "var_ddof1 v =
     (let m = mean v
      in fdiv (fsum (map (\<lambda>x. fmul (fsub x m) (fsub x m)) v)) (Fin (real (length v) - 1)))"

definition rolling_std :: "nat \<Rightarrow> series \<Rightarrow> series" where
  "rolling_std w xs =
     map (\<lambda>i. let v = observations (window w xs i)
               in if length v < w \<or> length v \<le> 1 then NaN else fsqrt (var_ddof1 v))
         [0..<length xs]"

subsection \<open>pandas frames\<close>

text \<open>
  A frame is its index (the timestamps, \<^verbatim>\<open>datetime64[ns]\<close> counts) and its columns in
  order, each a name with a series. pandas keeps a frame rectangular: every column is as
  long as the index.
\<close>

record dataframe =
  df_index :: "int list"
  df_columns :: "(string \<times> series) list"

definition rectangular :: "dataframe \<Rightarrow> bool" where
  "rectangular d = list_all (\<lambda>(n, c). length c = length (df_index d)) (df_columns d)"

text \<open>
  \<^verbatim>\<open>columns.str.contains(r'(?i)close')\<close>: the regular expression is searched for in the
  name, ignoring case. Column names are ASCII.
\<close>

definition lower_char :: "char \<Rightarrow> char" where
  "lower_char c =
     (let n = (of_char c :: nat) in if 65 \<le> n \<and> n \<le> 90 then char_of (n + 32) else c)"

fun str_contains :: "string \<Rightarrow> string \<Rightarrow> bool" where
  "str_contains [] pat = (pat = [])"
| "str_contains (c # cs) pat = (prefix pat (c # cs) \<or> str_contains cs pat)"

definition matches_close :: "string \<Rightarrow> bool" where
  "matches_close name = str_contains (map lower_char name) ''close''"

text \<open>\<^verbatim>\<open>df.rename(columns={old: new})\<close>: every column called \<open>old\<close> is renamed.\<close>

definition rename_columns :: "string \<Rightarrow> string \<Rightarrow> dataframe \<Rightarrow> dataframe" where
  "rename_columns old new d =
     d\<lparr>df_columns := map (\<lambda>(n, c). (if n = old then new else n, c)) (df_columns d)\<rparr>"

text \<open>
  \<^verbatim>\<open>df.fillna(method='ffill')\<close>: in each column a \<open>NaN\<close> cell takes the last value
  above it that is not \<open>NaN\<close>; leading \<open>NaN\<close> cells stay.
\<close>

fun ffill_from :: "fval \<Rightarrow> series \<Rightarrow> series" where
  "ffill_from prev [] = []"
| "ffill_from prev (x # xs) =
     (if isna x then prev # ffill_from prev xs else x # ffill_from x xs)"

definition fillna_ffill :: "dataframe \<Rightarrow> dataframe" where
  "fillna_ffill d = d\<lparr>df_columns := map (\<lambda>(n, c). (n, ffill_from NaN c)) (df_columns d)\<rparr>"

text \<open>\<^verbatim>\<open>df.dropna()\<close>: a row is kept when none of its cells is \<open>NaN\<close>.\<close>

definition row_complete :: "dataframe \<Rightarrow> nat \<Rightarrow> bool" where
  "row_complete d i = list_all (\<lambda>(n, c). \<not> isna (c ! i)) (df_columns d)"

definition keep :: "bool list \<Rightarrow> 'a list \<Rightarrow> 'a list" where
  "keep kept xs = map snd (filter fst (zip kept xs))"

definition dropna :: "dataframe \<Rightarrow> dataframe" where
  "dropna d =
     (let kept = map (row_complete d) [0..<length (df_index d)]
      in \<lparr>df_index = keep kept (df_index d),
          df_columns = map (\<lambda>(n, c). (n, keep kept c)) (df_columns d)\<rparr>)"

text \<open>
  \<^verbatim>\<open>df[name]\<close> selects the columns called \<open>name\<close>: one of them is a series, several are
  a frame. \<^verbatim>\<open>df[name] = series\<close> overwrites the columns called \<open>name\<close> in place, or
  appends a new column when there is none.
\<close>

definition getitem :: "dataframe \<Rightarrow> string \<Rightarrow> series list" where
  "getitem d name = map snd (filter (\<lambda>(n, c). n = name) (df_columns d))"

definition setitem :: "dataframe \<Rightarrow> string \<Rightarrow> series \<Rightarrow> dataframe" where
  "setitem d name v =
     (if name \<in> set (map fst (df_columns d))
      then d\<lparr>df_columns := map (\<lambda>(n, c). (n, if n = name then v else c)) (df_columns d)\<rparr>
      else d\<lparr>df_columns := df_columns d @ [(name, v)]\<rparr>)"

text \<open>\<^verbatim>\<open>df[names].values\<close>: the selected columns as an array, one row per index entry.\<close>

definition values_of :: "dataframe \<Rightarrow> string list \<Rightarrow> fval list list" where
  "values_of d names =
     (let cs = concat (map (getitem d) names)
      in map (\<lambda>i. map (\<lambda>c. c ! i) cs) [0..<length (df_index d)])"

subsection \<open>The indicators\<close>

text \<open>
  Lines 48 to 55, the relative strength index of the close series:
  \<^verbatim>\<open>
  period = 14
  delta = self.df['close'].diff()
  gain = delta.where(delta > 0, 0)
  loss = -delta.where(delta < 0, 0)
  avg_gain = gain.rolling(window=period).mean()
  avg_loss = loss.rolling(window=period).mean()
  rs = avg_gain / avg_loss
  rsi = 100 - (100 / (1 + rs))
  \<close>
\<close>

definition period :: nat where
  "period = 14"

definition gain :: "series \<Rightarrow> series" where
  "gain close = (let delta = diff close
                 in where_series delta (map (\<lambda>x. fgt x (Fin 0)) delta) (Fin 0))"

definition loss :: "series \<Rightarrow> series" where
  "loss close = (let delta = diff close
                 in map fneg (where_series delta (map (\<lambda>x. flt x (Fin 0)) delta) (Fin 0)))"

definition avg_gain :: "series \<Rightarrow> series" where
  "avg_gain close = rolling_mean period (gain close)"

definition avg_loss :: "series \<Rightarrow> series" where
  "avg_loss close = rolling_mean period (loss close)"

definition rsi_cell :: "fval \<Rightarrow> fval \<Rightarrow> fval" where
  "rsi_cell g l = (let rs = fdiv g l in fsub (Fin 100) (fdiv (Fin 100) (fadd (Fin 1) rs)))"

definition rsi :: "series \<Rightarrow> series" where
  "rsi close = map2 rsi_cell (avg_gain close) (avg_loss close)"

text \<open>
  Lines 44, 45 and 59 to 63, the rolling moving average and the Bollinger bands:
  \<^verbatim>\<open>
  rolling_window = 10
  self.df['rolling_ma'] = self.df['close'].rolling(window=rolling_window).mean()
  std_multiplier = 2
  rolling_mean = self.df['close'].rolling(window=rolling_window).mean()
  rolling_std = self.df['close'].rolling(window=rolling_window).std()
  self.df['upper_band'] = rolling_mean + (rolling_std * std_multiplier)
  self.df['lower_band'] = rolling_mean - (rolling_std * std_multiplier)
  \<close>
\<close>

definition rolling_window :: nat where
  "rolling_window = 10"

definition std_multiplier :: real where
  "std_multiplier = 2"

definition rolling_ma :: "series \<Rightarrow> series" where
  "rolling_ma close = rolling_mean rolling_window close"

definition upper_band :: "series \<Rightarrow> series" where
  "upper_band close =
     map2 fadd (rolling_mean rolling_window close)
               (map (\<lambda>x. fmul x (Fin std_multiplier)) (rolling_std rolling_window close))"

definition lower_band :: "series \<Rightarrow> series" where
  "lower_band close =
     map2 fsub (rolling_mean rolling_window close)
               (map (\<lambda>x. fmul x (Fin std_multiplier)) (rolling_std rolling_window close))"

subsection \<open>\<^verbatim>\<open>MarketData.preprocess_data\<close>\<close>

text \<open>
  The object's fields. \<^verbatim>\<open>raw_data\<close>, the JSON payload that \<^verbatim>\<open>retrieve_data\<close> turns into
  \<^verbatim>\<open>df\<close>, is never read by the preprocessing and is left out.
\<close>

record market_data =
  api_key :: string
  interval :: "string option"
  symbol :: "string option"
  df :: "dataframe option"
  timestamps :: "int list option"
  processed_data :: "fval list list option"

text \<open>
  The method returns nothing and works on the object: the result is the exception raised,
  if any, with the object's state when the call ends. The errors:
  \<^item> \<open>AttributeError\<close>: \<^verbatim>\<open>self.df\<close> is still \<^verbatim>\<open>None\<close>;
  \<^item> \<open>CloseColumnMissing\<close>: the \<^verbatim>\<open>ValueError\<close> of line 32;
  \<^item> \<open>FrameAssignedToColumn\<close>: after the renaming several columns are called
    \<^verbatim>\<open>close\<close>, so \<^verbatim>\<open>self.df['close']\<close> is a frame and pandas refuses, with a
    \<^verbatim>\<open>ValueError\<close> of its own, to store the rolling mean of a frame into the single
    column \<^verbatim>\<open>rolling_ma\<close> (line 45); by then \<^verbatim>\<open>self.df\<close> has been replaced.
  The column \<^verbatim>\<open>close\<close> is not assigned to after line 45, so its later reads give the
  same series.
\<close>

definition preprocess_data :: "market_data \<Rightarrow> py_error option \<times> market_data" where
  "preprocess_data s =
     (case df s of
        None \<Rightarrow> (Some AttributeError, s)
      | Some d0 \<Rightarrow>
          (case filter matches_close (map fst (df_columns d0)) of
             [] \<Rightarrow> (Some CloseColumnMissing, s)
           | c0 # _ \<Rightarrow>
               (let d1 = rename_columns c0 ''close'' d0;
                    d2 = fillna_ffill d1;
                    d3 = dropna d2
                in (case getitem d3 ''close'' of
                      [close] \<Rightarrow>
                        (let d4 = setitem d3 ''rolling_ma'' (rolling_ma close);
                             d5 = setitem d4 ''rsi'' (rsi close);
                             d6 = setitem d5 ''upper_band'' (upper_band close);
                             d7 = setitem d6 ''lower_band'' (lower_band close)
                         in (None,
                             s\<lparr>df := Some d7,
                               processed_data :=
                                 Some (values_of d7
                                   [''rolling_ma'', ''rsi'', ''upper_band'', ''lower_band'']),
                               timestamps := Some (df_index d7)\<rparr>))
                    | _ \<Rightarrow> (Some FrameAssignedToColumn, s\<lparr>df := Some d3\<rparr>)))))"

subsection \<open>The intraday iterator\<close>

text \<open>
  \<^verbatim>\<open>IntradayData\<close> keeps the retrieved frame in \<^verbatim>\<open>self.data\<close> (\<^verbatim>\<open>None\<close> until
  \<^verbatim>\<open>retrieve_data\<close> has run) and a cursor \<^verbatim>\<open>self.index\<close>, which starts at 0 and is only
  ever incremented. A row is its timestamp with the five values open, high, low, close,
  volume.
\<close>

type_synonym row = "int \<times> fval list"

record intraday_data =
  i_api_key :: string
  base_url :: string
  data :: "row list option"
  index :: nat

text \<open>
  \<^verbatim>\<open>return self.index < len(self.data) - 1\<close>, on Python's integers; \<^verbatim>\<open>len(None)\<close>
  raises \<^verbatim>\<open>TypeError\<close>.
\<close>

definition has_next :: "intraday_data \<Rightarrow> py_error + bool" where
  "has_next s =
     (case data s of
        None \<Rightarrow> Inl TypeError
      | Some d \<Rightarrow> Inr (int (index s) < int (length d) - 1))"

text \<open>
  \<^verbatim>\<open>next\<close>: raise \<^verbatim>\<open>StopIteration\<close> unless \<^verbatim>\<open>has_next()\<close>; otherwise return
  \<^verbatim>\<open>self.data.iloc[self.index]\<close> and advance the cursor. The result is the outcome of the
  call together with the object's state after it.
\<close>

definition next_row :: "intraday_data \<Rightarrow> (py_error + row) \<times> intraday_data" where
  "next_row s =
     (case has_next s of
        Inl e \<Rightarrow> (Inl e, s)
      | Inr b \<Rightarrow>
          if \<not> b then (Inl StopIteration, s)
          else (case data s of
                  None \<Rightarrow> (Inl TypeError, s)
                | Some d \<Rightarrow>
                    if index s < length d then (Inr (d ! index s), s\<lparr>index := index s + 1\<rparr>)
                    else (Inl IndexError, s)))"

text \<open>\<open>k\<close> successive calls of \<^verbatim>\<open>next()\<close> on the same object, with their outcomes in order.\<close>

fun next_calls :: "nat \<Rightarrow> intraday_data \<Rightarrow> (py_error + row) list \<times> intraday_data" where
  "next_calls 0 s = ([], s)"
| "next_calls (Suc k) s =
     (case next_row s of
        (r, s') \<Rightarrow> (case next_calls k s' of (rs, s'') \<Rightarrow> (r # rs, s'')))"

subsection \<open>Notions used in the statements\<close>

text \<open>No cell of the frame is \<open>NaN\<close>.\<close>

definition no_nan :: "dataframe \<Rightarrow> bool" where
  "no_nan d = list_all (\<lambda>(n, c). list_all (\<lambda>x. \<not> isna x) c) (df_columns d)"

text \<open>
  A valid, normalised price series: a rectangular frame with distinct column names, every
  cell finite, a close-like column, and no other column already called \<^verbatim>\<open>close\<close>
  unless it is the one found. Nothing is asked of the index.
\<close>

definition price_series :: "dataframe \<Rightarrow> bool" where
  "price_series d =
     (rectangular d \<and> distinct (map fst (df_columns d))
      \<and> list_all (\<lambda>(n, c). list_all is_fin c) (df_columns d)
      \<and> (case filter matches_close (map fst (df_columns d)) of
            [] \<Rightarrow> False
          | c0 # _ \<Rightarrow> ''close'' \<in> set (map fst (df_columns d)) \<longrightarrow> c0 = ''close''))"

text \<open>The series of the first close-like column, the one line 35 renames.\<close>

definition close_column :: "dataframe \<Rightarrow> series option" where
  "close_column d =
     (case filter matches_close (map fst (df_columns d)) of
        [] \<Rightarrow> None
      | c0 # _ \<Rightarrow> map_of (df_columns d) c0)"

text \<open>The four column assignments of lines 45, 56, 62 and 63.\<close>

definition with_indicators :: "dataframe \<Rightarrow> series \<Rightarrow> dataframe" where
  "with_indicators d close =
     setitem (setitem (setitem (setitem d ''rolling_ma'' (rolling_ma close))
        ''rsi'' (rsi close)) ''upper_band'' (upper_band close)) ''lower_band'' (lower_band close)"

text \<open>The array of the four indicator columns of a close series, row by row.\<close>

definition indicator_rows :: "series \<Rightarrow> fval list list" where
  "indicator_rows close =
     map (\<lambda>i. [rolling_ma close ! i, rsi close ! i, upper_band close ! i, lower_band close ! i])
         [0..<length close]"

text \<open>
  The arithmetic mean of \<open>xs[i-W+1 .. i]\<close>, and the sample standard deviation (divisor
  \<open>W - 1\<close>) of the same cells, written as the sums they are.
\<close>

definition naive_mean :: "nat \<Rightarrow> real list \<Rightarrow> nat \<Rightarrow> real" where
  "naive_mean W xs i = (\<Sum>k = i + 1 - W..i. xs ! k) / real W"

definition sample_std :: "nat \<Rightarrow> real list \<Rightarrow> nat \<Rightarrow> real" where
  "sample_std W xs i =
     sqrt ((\<Sum>k = i + 1 - W..i. (xs ! k - naive_mean W xs i)\<^sup>2) / (real W - 1))"

text \<open>
  The gains and losses of a finite close series as plain numbers: the positive part of
  each step up or down, and 0 at index 0, where \<^verbatim>\<open>where(..., 0)\<close> puts a 0 for the
  undefined difference.
\<close>

definition gains :: "real list \<Rightarrow> real list" where
  "gains cs = map (\<lambda>k. if k = 0 then 0 else max (cs ! k - cs ! (k - 1)) 0) [0..<length cs]"

definition losses :: "real list \<Rightarrow> real list" where
  "losses cs = map (\<lambda>k. if k = 0 then 0 else max (cs ! (k - 1) - cs ! k) 0) [0..<length cs]"

text \<open>A cell that is a number not below 0, or \<open>+\<infinity>\<close>.\<close>

fun nonneg :: "fval \<Rightarrow> bool" where
  "nonneg (Fin a) = (0 \<le> a)"
| "nonneg PInf = True"
| "nonneg NInf = False"
| "nonneg NaN = False"

text \<open>
  Sample inputs: an object as \<^verbatim>\<open>retrieve_data\<close> leaves it, holding frame \<open>d\<close>, and a frame
  of bars with the provider's column names, the given timestamps and the given closes.
\<close>

definition retrieved :: "dataframe \<Rightarrow> market_data" where
  "retrieved d =
     \<lparr>api_key = ''demo'', interval = Some ''1min'', symbol = Some ''IBM'',
      df = Some d, timestamps = None, processed_data = None\<rparr>"

definition bars :: "int list \<Rightarrow> real list \<Rightarrow> dataframe" where
  "bars ts cs =
     \<lparr>df_index = ts,
      df_columns = [(''1. open'', map Fin cs), (''4. close'', map Fin cs),
                    (''5. volume'', map (\<lambda>c. Fin 100) cs)]\<rparr>"

section \<open>Frames: normalisation and column access\<close>

lemma is_fin_not_isna: "is_fin x \<Longrightarrow> \<not> isna x"
  by (cases x) simp_all

lemma ffill_from_id: "list_all (\<lambda>x. \<not> isna x) xs \<Longrightarrow> ffill_from p xs = xs"
  by (induction xs arbitrary: p) simp_all

lemma keep_all: "length kept = length xs \<Longrightarrow> list_all (\<lambda>b. b) kept \<Longrightarrow> keep kept xs = xs"
proof (induction kept arbitrary: xs)
  case Nil
  then show ?case by (simp add: keep_def)
next
  case (Cons b bs)
  then obtain y ys where "xs = y # ys" by (cases xs) auto
  with Cons show ?case by (simp add: keep_def)
qed

lemma fillna_ffill_id: "no_nan d \<Longrightarrow> fillna_ffill d = d"
proof -
  assume a: "no_nan d"
  have "map (\<lambda>(n, c). (n, ffill_from NaN c)) (df_columns d) = df_columns d"
    using a unfolding no_nan_def
    by (induction "df_columns d") (auto simp: list_all_iff ffill_from_id intro!: map_idI)
  then show ?thesis by (simp add: fillna_ffill_def)
qed

lemma row_complete_no_nan:
  assumes "no_nan d" "rectangular d" "i < length (df_index d)"
  shows "row_complete d i"
  unfolding row_complete_def list_all_iff
proof (clarify)
  fix n c
  assume m: "(n, c) \<in> set (df_columns d)" and na: "isna (c ! i)"
  from m assms(2) have "length c = length (df_index d)"
    unfolding rectangular_def list_all_iff by auto
  with assms(3) have "c ! i \<in> set c" by simp
  moreover from m assms(1) have "\<forall>x \<in> set c. \<not> isna x"
    unfolding no_nan_def list_all_iff by auto
  ultimately show False using na by blast
qed

lemma dropna_id:
  assumes "no_nan d" "rectangular d"
  shows "dropna d = d"
proof -
  let ?kept = "map (row_complete d) [0..<length (df_index d)]"
  have all: "list_all (\<lambda>b. b) ?kept"
    using row_complete_no_nan [OF assms] by (simp add: list_all_iff)
  have i: "keep ?kept (df_index d) = df_index d"
    by (rule keep_all) (simp_all add: all)
  have "keep ?kept c = c" if "(n, c) \<in> set (df_columns d)" for n c
  proof (rule keep_all)
    show "length ?kept = length c"
      using that assms(2) unfolding rectangular_def list_all_iff by auto
    show "list_all (\<lambda>b. b) ?kept" by (rule all)
  qed
  then have c: "map (\<lambda>(n, c). (n, keep ?kept c)) (df_columns d) = df_columns d"
    by (intro map_idI) auto
  show ?thesis
    unfolding dropna_def Let_def i c by simp
qed

lemma filter_absent: "n \<notin> fst ` set cols \<Longrightarrow> filter (\<lambda>(k, c). k = n) cols = []"
  by (induction cols) auto

lemma select_replaced_same:
  "n \<in> fst ` set cols \<Longrightarrow> distinct (map fst cols) \<Longrightarrow>
   map snd (filter (\<lambda>(k, c). k = n) (map (\<lambda>(k, c). (k, if k = n then v else c)) cols)) = [v]"
proof (induction cols)
  case Nil
  then show ?case by simp
next
  case (Cons a cols)
  obtain k c where a: "a = (k, c)" by (cases a)
  show ?case
  proof (cases "k = n")
    case True
    then have "n \<notin> fst ` set cols" using Cons.prems(2) a by auto
    then have "n \<notin> fst ` set (map (\<lambda>(k, c). (k, if k = n then v else c)) cols)"
      by (auto simp: image_iff)
    then show ?thesis using True a by (simp add: filter_absent)
  next
    case False
    then show ?thesis using Cons a by auto
  qed
qed

lemma select_replaced_other:
  "m \<noteq> n \<Longrightarrow>
   map snd (filter (\<lambda>(k, c). k = m) (map (\<lambda>(k, c). (k, if k = n then v else c)) cols))
     = map snd (filter (\<lambda>(k, c). k = m) cols)"
  by (induction cols) auto

lemma names_setitem:
  "map fst (df_columns (setitem d n v)) =
     (if n \<in> set (map fst (df_columns d)) then map fst (df_columns d)
      else map fst (df_columns d) @ [n])"
  by (auto simp: setitem_def comp_def case_prod_beta)

lemma distinct_setitem:
  "distinct (map fst (df_columns d)) \<Longrightarrow> distinct (map fst (df_columns (setitem d n v)))"
  unfolding names_setitem by simp

lemma df_index_setitem: "df_index (setitem d n v) = df_index d"
  by (simp add: setitem_def)

lemma getitem_setitem:
  assumes "distinct (map fst (df_columns d))"
  shows "getitem (setitem d n v) m = (if m = n then [v] else getitem d m)"
proof (cases "n \<in> set (map fst (df_columns d))")
  case True
  then show ?thesis
    using assms select_replaced_same [of n "df_columns d" v] select_replaced_other [of m n v "df_columns d"]
    by (simp add: getitem_def setitem_def)
next
  case False
  then have "filter (\<lambda>(k, c). k = n) (df_columns d) = []"
    by (intro filter_absent) simp
  then show ?thesis using False by (simp add: getitem_def setitem_def)
qed

lemma select_distinct:
  "distinct (map fst cols) \<Longrightarrow> map_of cols n = Some c \<Longrightarrow>
   map snd (filter (\<lambda>(k, c). k = n) cols) = [c]"
proof (induction cols)
  case Nil
  then show ?case by simp
next
  case (Cons a cols)
  obtain k c' where a: "a = (k, c')" by (cases a)
  show ?case
  proof (cases "k = n")
    case True
    then have "n \<notin> fst ` set cols" using Cons.prems(1) a by auto
    then show ?thesis using True a Cons.prems(2) by (simp add: filter_absent)
  next
    case False
    then show ?thesis using Cons a by auto
  qed
qed

lemma map_of_renamed:
  assumes "distinct (map fst cols)" and "c0 \<in> fst ` set cols"
    and "new \<in> fst ` set cols \<longrightarrow> c0 = new"
  shows "distinct (map fst (map (\<lambda>(n, c). (if n = c0 then new else n, c)) cols))"
    and "map_of (map (\<lambda>(n, c). (if n = c0 then new else n, c)) cols) new = map_of cols c0"
proof -
  let ?f = "\<lambda>n. if n = c0 then new else n"
  have names: "map fst (map (\<lambda>(n, c). (?f n, c)) cols) = map ?f (map fst cols)"
    by (simp add: comp_def case_prod_beta)
  have inj: "inj_on ?f (set (map fst cols))"
    using assms(3) by (auto simp: inj_on_def)
  show "distinct (map fst (map (\<lambda>(n, c). (?f n, c)) cols))"
    unfolding names by (subst distinct_map) (use assms(1) inj in blast)
  have "map_of (map (\<lambda>(n, c). (?f n, c)) cols) (?f k) = map_of cols k"
    if "k \<in> fst ` set cols" "set (map fst cols) \<subseteq> S" "inj_on ?f S" for k S
    using that
  proof (induction cols)
    case Nil
    then show ?case by simp
  next
    case (Cons a cols)
    obtain n c where a: "a = (n, c)" by (cases a)
    show ?case
    proof (cases "n = k")
      case True
      then show ?thesis using a by simp
    next
      case False
      have "n \<in> S" "k \<in> S" using Cons.prems a by auto
      have ne: "?f n \<noteq> ?f k"
      proof
        assume "?f n = ?f k"
        from inj_onD [OF Cons.prems(3) this \<open>n \<in> S\<close> \<open>k \<in> S\<close>] False show False by simp
      qed
      have "k \<in> fst ` set cols" using Cons.prems(1) a False by auto
      then have "map_of (map (\<lambda>(n, c). (?f n, c)) cols) (?f k) = map_of cols k"
        using Cons.IH Cons.prems by auto
      then show ?thesis using ne a False by simp
    qed
  qed
  from this [of c0 "set (map fst cols)"] assms(2) inj
  show "map_of (map (\<lambda>(n, c). (?f n, c)) cols) new = map_of cols c0"
    by simp
qed

lemma no_nan_rename: "no_nan (rename_columns a b d) = no_nan d"
  by (simp add: no_nan_def rename_columns_def list_all_iff case_prod_beta)

lemma rectangular_rename: "rectangular (rename_columns a b d) = rectangular d"
  by (simp add: rectangular_def rename_columns_def list_all_iff case_prod_beta)

lemma finite_no_nan:
  "list_all (\<lambda>(n, c). list_all is_fin c) (df_columns d) \<Longrightarrow> no_nan d"
  unfolding no_nan_def list_all_iff by (fastforce dest: is_fin_not_isna)

lemma values_of_indicators:
  assumes "distinct (map fst (df_columns d))" and "length close = length (df_index d)"
  shows "values_of (with_indicators d close) [''rolling_ma'', ''rsi'', ''upper_band'', ''lower_band'']
           = indicator_rows close"
proof -
  let ?d4 = "setitem d ''rolling_ma'' (rolling_ma close)"
  let ?d5 = "setitem ?d4 ''rsi'' (rsi close)"
  let ?d6 = "setitem ?d5 ''upper_band'' (upper_band close)"
  have d4: "distinct (map fst (df_columns ?d4))" using assms(1) by (rule distinct_setitem)
  have d5: "distinct (map fst (df_columns ?d5))" using d4 by (rule distinct_setitem)
  have d6: "distinct (map fst (df_columns ?d6))" using d5 by (rule distinct_setitem)
  have g1: "getitem (with_indicators d close) ''rolling_ma'' = [rolling_ma close]"
    unfolding with_indicators_def
    by (simp add: getitem_setitem [OF d6] getitem_setitem [OF d5] getitem_setitem [OF d4]
        getitem_setitem [OF assms(1)])
  have g2: "getitem (with_indicators d close) ''rsi'' = [rsi close]"
    unfolding with_indicators_def
    by (simp add: getitem_setitem [OF d6] getitem_setitem [OF d5] getitem_setitem [OF d4])
  have g3: "getitem (with_indicators d close) ''upper_band'' = [upper_band close]"
    unfolding with_indicators_def
    by (simp add: getitem_setitem [OF d6] getitem_setitem [OF d5])
  have g4: "getitem (with_indicators d close) ''lower_band'' = [lower_band close]"
    unfolding with_indicators_def
    by (simp add: getitem_setitem [OF d6])
  have ix: "df_index (with_indicators d close) = df_index d"
    unfolding with_indicators_def by (simp add: df_index_setitem)
  show ?thesis
    unfolding values_of_def Let_def indicator_rows_def
    by (simp add: g1 g2 g3 g4 ix assms(2))
qed

lemma preprocess_price_series:
  assumes "df s = Some d" and "price_series d"
  shows "\<exists>c0 rest close.
           filter matches_close (map fst (df_columns d)) = c0 # rest
         \<and> close_column d = Some close
         \<and> length close = length (df_index d)
         \<and> list_all is_fin close
         \<and> preprocess_data s =
             (None, s\<lparr>df := Some (with_indicators (rename_columns c0 ''close'' d) close),
                      processed_data := Some (indicator_rows close),
                      timestamps := Some (df_index d)\<rparr>)"
proof -
  let ?names = "map fst (df_columns d)"
  from assms(2) obtain c0 rest where
    f: "filter matches_close ?names = c0 # rest" and
    u: "''close'' \<in> set ?names \<longrightarrow> c0 = ''close''" and
    r: "rectangular d" and dn: "distinct ?names" and
    fin: "list_all (\<lambda>(n, c). list_all is_fin c) (df_columns d)"
    unfolding price_series_def by (auto split: list.splits)
  have "c0 \<in> set (filter matches_close ?names)" unfolding f by simp
  then have c0: "c0 \<in> fst ` set (df_columns d)" by auto
  then obtain close where cl: "map_of (df_columns d) c0 = Some close"
    by (metis map_of_eq_None_iff not_Some_eq)
  then have mem: "(c0, close) \<in> set (df_columns d)" by (rule map_of_SomeD)
  have len: "length close = length (df_index d)"
    using r mem unfolding rectangular_def list_all_iff by auto
  have cfin: "list_all is_fin close"
    using fin mem unfolding list_all_iff by auto
  let ?d1 = "rename_columns c0 ''close'' d"
  have nn: "no_nan ?d1" using fin by (simp add: no_nan_rename finite_no_nan)
  have rc: "rectangular ?d1" using r by (simp add: rectangular_rename)
  have d2: "fillna_ffill ?d1 = ?d1" using nn by (rule fillna_ffill_id)
  have d3: "dropna ?d1 = ?d1" using nn rc by (rule dropna_id)
  have u': "''close'' \<in> fst ` set (df_columns d) \<longrightarrow> c0 = ''close''" using u by simp
  have dn1: "distinct (map fst (df_columns ?d1))"
    unfolding rename_columns_def using map_of_renamed(1) [OF dn c0 u'] by simp
  have "map_of (df_columns ?d1) ''close'' = Some close"
    unfolding rename_columns_def using map_of_renamed(2) [OF dn c0 u'] cl by simp
  then have g: "getitem ?d1 ''close'' = [close]"
    unfolding getitem_def using dn1 by (rule select_distinct [rotated])
  have ix: "df_index ?d1 = df_index d" by (simp add: rename_columns_def)
  have v: "values_of (with_indicators ?d1 close)
             [''rolling_ma'', ''rsi'', ''upper_band'', ''lower_band''] = indicator_rows close"
    using dn1 by (rule values_of_indicators) (simp add: ix len)
  have ix7: "df_index (with_indicators ?d1 close) = df_index d"
    unfolding with_indicators_def by (simp add: df_index_setitem ix)
  have "preprocess_data s =
             (None, s\<lparr>df := Some (with_indicators ?d1 close),
                      processed_data := Some (indicator_rows close),
                      timestamps := Some (df_index d)\<rparr>)"
    unfolding preprocess_data_def Let_def assms(1) option.case f list.case d2 d3 g
    unfolding with_indicators_def [symmetric] v ix7 by simp
  moreover have "close_column d = Some close"
    unfolding close_column_def f using cl by simp
  ultimately show ?thesis using f len cfin by blast
qed


section \<open>Series: windows and rolling statistics\<close>

lemma fin_list: "list_all is_fin xs \<Longrightarrow> map Fin (map val xs) = xs"
proof (induction xs)
  case Nil
  then show ?case by simp
next
  case (Cons x xs)
  then show ?case by (cases x) simp_all
qed

lemma fsum_Fin: "fsum (map Fin rs) = Fin (sum_list rs)"
  by (induction rs) (simp_all add: fsum_def)

lemma observations_Fin: "observations (map Fin rs) = map Fin rs"
  by (induction rs) (simp_all add: observations_def)

lemma window_map: "window w (map f xs) i = map f (window w xs i)"
  by (simp add: window_def take_map drop_map)

lemma length_window: "i < length xs \<Longrightarrow> length (window w xs i) = min w (Suc i)"
  by (auto simp: window_def)

lemma sum_list_window:
  assumes "i < length rs"
  shows "sum_list (map f (window w rs i)) = (\<Sum>k = Suc i - w..i. f (rs ! k))"
proof -
  have "sum_list (map f (window w rs i)) = (\<Sum>j = 0..<min w (Suc i). f (window w rs i ! j))"
    using length_window [OF assms, of w] by (simp add: sum_list_sum_nth atLeast0LessThan)
  also have "\<dots> = (\<Sum>j = 0..<min w (Suc i). f (rs ! (Suc i - w + j)))"
    using assms by (intro sum.cong) (auto simp: window_def)
  also have "\<dots> = (\<Sum>k = Suc i - w..<Suc i - w + min w (Suc i). f (rs ! k))"
    by (rule sum.reindex_bij_witness [where i = "\<lambda>k. k - (Suc i - w)" and j = "\<lambda>j. Suc i - w + j"]) auto
  also have "Suc i - w + min w (Suc i) = Suc i" by auto
  also have "{Suc i - w..<Suc i} = {Suc i - w..i}" by auto
  finally show ?thesis .
qed

lemma length_rolling_mean: "length (rolling_mean w xs) = length xs"
  by (simp add: rolling_mean_def)

lemma length_rolling_std: "length (rolling_std w xs) = length xs"
  by (simp add: rolling_std_def)

lemma rolling_mean_Fin:
  assumes "0 < w" and "i < length rs"
  shows "rolling_mean w (map Fin rs) ! i =
           (if Suc i < w then NaN else Fin (naive_mean w rs i))"
proof -
  have l: "length (window w rs i) = min w (Suc i)" using assms(2) by (rule length_window)
  have s: "sum_list (window w rs i) = (\<Sum>k = Suc i - w..i. rs ! k)"
    using sum_list_window [OF assms(2), of "\<lambda>x. x" w] by simp
  show ?thesis
    using assms l
    by (auto simp: rolling_mean_def Let_def window_map observations_Fin mean_def fsum_Fin s
        naive_mean_def min_def)
qed

lemma length_diff: "length (diff xs) = length xs"
  by (cases xs) (simp_all add: diff_def)

lemma diff_nth:
  assumes "k < length xs"
  shows "diff xs ! k = (if k = 0 then NaN else fsub (xs ! k) (xs ! (k - 1)))"
proof (cases xs)
  case Nil
  with assms show ?thesis by simp
next
  case (Cons a t)
  show ?thesis
  proof (cases k)
    case 0
    then show ?thesis by (simp add: diff_def Cons)
  next
    case (Suc j)
    then have "j < length t" using assms Cons by simp
    then show ?thesis using Suc Cons by (simp add: diff_def)
  qed
qed

lemma length_gain: "length (gain xs) = length xs"
  by (simp add: gain_def where_series_def Let_def length_diff)

lemma length_loss: "length (loss xs) = length xs"
  by (simp add: loss_def where_series_def Let_def length_diff)

lemma gain_nth:
  "k < length xs \<Longrightarrow>
   gain xs ! k = (if fgt (diff xs ! k) (Fin 0) then diff xs ! k else Fin 0)"
  by (simp add: gain_def where_series_def Let_def length_diff)

lemma loss_nth:
  "k < length xs \<Longrightarrow>
   loss xs ! k = fneg (if flt (diff xs ! k) (Fin 0) then diff xs ! k else Fin 0)"
  by (simp add: loss_def where_series_def Let_def length_diff)

lemma gain_Fin: "gain (map Fin cs) = map Fin (gains cs)"
proof (rule nth_equalityI)
  show "length (gain (map Fin cs)) = length (map Fin (gains cs))"
    by (simp add: length_gain gains_def)
  fix k assume "k < length (gain (map Fin cs))"
  then have k: "k < length cs" by (simp add: length_gain)
  then show "gain (map Fin cs) ! k = map Fin (gains cs) ! k"
    by (simp add: gain_nth diff_nth gains_def fsub_def fgt_def max_def)
qed

lemma loss_Fin: "loss (map Fin cs) = map Fin (losses cs)"
proof (rule nth_equalityI)
  show "length (loss (map Fin cs)) = length (map Fin (losses cs))"
    by (simp add: length_loss losses_def)
  fix k assume "k < length (loss (map Fin cs))"
  then have k: "k < length cs" by (simp add: length_loss)
  then show "loss (map Fin cs) ! k = map Fin (losses cs) ! k"
    by (simp add: loss_nth diff_nth losses_def fsub_def max_def)
qed







lemma nonneg_not_isna: "nonneg x \<Longrightarrow> \<not> isna x"
  by (cases x) simp_all




lemma length_avg: "length (avg_gain xs) = length xs" "length (avg_loss xs) = length xs"
  by (simp_all add: avg_gain_def avg_loss_def length_rolling_mean length_gain length_loss)

lemma length_rsi: "length (rsi xs) = length xs"
  by (simp add: rsi_def length_avg)

lemma rsi_nth: "i < length xs \<Longrightarrow> rsi xs ! i = rsi_cell (avg_gain xs ! i) (avg_loss xs ! i)"
  by (simp add: rsi_def length_avg)


lemma avg_gain_Fin:
  assumes "i < length cs"
  shows "avg_gain (map Fin cs) ! i = (if i < 13 then NaN else Fin (naive_mean 14 (gains cs) i))"
  unfolding avg_gain_def gain_Fin period_def
  using rolling_mean_Fin [of 14 i "gains cs"] assms by (auto simp: gains_def)

lemma avg_loss_Fin:
  assumes "i < length cs"
  shows "avg_loss (map Fin cs) ! i = (if i < 13 then NaN else Fin (naive_mean 14 (losses cs) i))"
  unfolding avg_loss_def loss_Fin period_def
  using rolling_mean_Fin [of 14 i "losses cs"] assms by (auto simp: losses_def)


lemma losses_nonneg: "k < length cs \<Longrightarrow> 0 \<le> losses cs ! k"
  by (simp add: losses_def)

lemma naive_mean_nonneg:
  assumes "i < length xs" and "\<And>k. k < length xs \<Longrightarrow> 0 \<le> xs ! k"
  shows "0 \<le> naive_mean W xs i"
  unfolding naive_mean_def using assms by (intro divide_nonneg_nonneg sum_nonneg) auto

lemma rsi_cell_Fin:
  assumes "0 \<le> g" and "0 \<le> l"
  shows "isna (rsi_cell (Fin g) (Fin l)) = (g = 0 \<and> l = 0)"
proof (cases "l = 0")
  case True
  then show ?thesis using assms by (auto simp: rsi_cell_def fsub_def)
next
  case False
  then have "0 \<le> g / l" using assms by simp
  then have "1 + g / l \<noteq> 0" by linarith
  then show ?thesis using False by (simp add: rsi_cell_def fsub_def)
qed


lemma rsi_cell_flat: "rsi_cell (Fin 0) (Fin 0) = NaN"
  by (simp add: rsi_cell_def fsub_def)

lemma mean_Fin: "ws \<noteq> [] \<Longrightarrow> mean (map Fin ws) = Fin (sum_list ws / real (length ws))"
  by (simp add: mean_def fsum_Fin)

lemma var_ddof1_Fin:
  assumes "2 \<le> length ws"
  shows "var_ddof1 (map Fin ws) =
           Fin ((\<Sum>x\<leftarrow>ws. (x - sum_list ws / real (length ws))\<^sup>2) / (real (length ws) - 1))"
proof -
  let ?m = "sum_list ws / real (length ws)"
  have ne: "ws \<noteq> []" using assms by auto
  have sq: "map (\<lambda>x. fmul (fsub x (Fin ?m)) (fsub x (Fin ?m))) (map Fin ws)
              = map Fin (map (\<lambda>x. (x - ?m)\<^sup>2) ws)"
    by (simp add: fsub_def power2_eq_square)
  have d: "real (length ws) - 1 \<noteq> 0" using assms by simp
  show ?thesis
    unfolding var_ddof1_def Let_def mean_Fin [OF ne] sq fsum_Fin using d by simp
qed

lemma rolling_std_Fin:
  assumes "2 \<le> w" and "i < length rs"
  shows "rolling_std w (map Fin rs) ! i =
           (if Suc i < w then NaN else Fin (sample_std w rs i))"
proof (cases "Suc i < w")
  case True
  then show ?thesis
    using assms length_window [OF assms(2), of w]
    by (simp add: rolling_std_def Let_def window_map observations_Fin)
next
  case False
  let ?ws = "window w rs i"
  have l: "length ?ws = w" using length_window [OF assms(2), of w] False by simp
  have s: "sum_list ?ws = (\<Sum>k = Suc i - w..i. rs ! k)"
    using sum_list_window [OF assms(2), of "\<lambda>x. x" w] by simp
  have m: "sum_list ?ws / real w = naive_mean w rs i"
    unfolding s naive_mean_def by simp
  have v: "var_ddof1 (map Fin ?ws) =
             Fin ((\<Sum>k = Suc i - w..i. (rs ! k - naive_mean w rs i)\<^sup>2) / (real w - 1))"
    using var_ddof1_Fin [of ?ws] assms(1) l
      sum_list_window [OF assms(2), of "\<lambda>x. (x - naive_mean w rs i)\<^sup>2" w]
    by (simp add: m)
  have nn: "0 \<le> (\<Sum>k = Suc i - w..i. (rs ! k - naive_mean w rs i)\<^sup>2) / (real w - 1)"
    using assms(1) by (intro divide_nonneg_nonneg sum_nonneg) auto
  show ?thesis
    using False assms l nn
    by (simp add: rolling_std_def Let_def window_map observations_Fin v sample_std_def)
qed

lemma rolling_ma_Fin:
  assumes "i < length rs"
  shows "rolling_ma (map Fin rs) ! i = (if i < 9 then NaN else Fin (naive_mean 10 rs i))"
  unfolding rolling_ma_def rolling_window_def
  using rolling_mean_Fin [of 10 i rs] assms by auto

lemma upper_band_Fin:
  assumes "i < length rs"
  shows "upper_band (map Fin rs) ! i =
           (if i < 9 then NaN else Fin (naive_mean 10 rs i + 2 * sample_std 10 rs i))"
  unfolding upper_band_def rolling_window_def std_multiplier_def
  using rolling_mean_Fin [of 10 i rs] rolling_std_Fin [of 10 i rs] assms
  by (auto simp: length_rolling_mean length_rolling_std)

lemma lower_band_Fin:
  assumes "i < length rs"
  shows "lower_band (map Fin rs) ! i =
           (if i < 9 then NaN else Fin (naive_mean 10 rs i - 2 * sample_std 10 rs i))"
  unfolding lower_band_def rolling_window_def std_multiplier_def
  using rolling_mean_Fin [of 10 i rs] rolling_std_Fin [of 10 i rs] assms
  by (auto simp: length_rolling_mean length_rolling_std fsub_def)

section \<open>The indicator pipeline\<close>

subsection \<open>The output array of a valid series\<close>

lemma indicator_rows_nth:
  "i < length close \<Longrightarrow>
   indicator_rows close ! i =
     [rolling_ma close ! i, rsi close ! i, upper_band close ! i, lower_band close ! i]"
  by (simp add: indicator_rows_def)

lemma length_indicator_rows: "length (indicator_rows close) = length close"
  by (simp add: indicator_rows_def)

lemma preprocess_rows:
  assumes "df s = Some d" and "price_series d" and "close_column d = Some close"
  shows "fst (preprocess_data s) = None"
    and "processed_data (snd (preprocess_data s)) = Some (indicator_rows close)"
    and "timestamps (snd (preprocess_data s)) = Some (df_index d)"
    and "length close = length (df_index d)"
    and "close = map Fin (map val close)"
proof -
  from preprocess_price_series [OF assms(1,2)] assms(3)
  have a: "fst (preprocess_data s) = None
         \<and> processed_data (snd (preprocess_data s)) = Some (indicator_rows close)
         \<and> timestamps (snd (preprocess_data s)) = Some (df_index d)
         \<and> length close = length (df_index d) \<and> list_all is_fin close"
    by auto
  then show "fst (preprocess_data s) = None"
    and "processed_data (snd (preprocess_data s)) = Some (indicator_rows close)"
    and "timestamps (snd (preprocess_data s)) = Some (df_index d)"
    and "length close = length (df_index d)"
    by blast+
  from a have "list_all is_fin close" by blast
  then show "close = map Fin (map val close)" by (rule fin_list [symmetric])
qed

lemma bars_price_series: "length ts = length cs \<Longrightarrow> price_series (bars ts cs)"
proof -
  assume l: "length ts = length cs"
  have m: "\<not> matches_close ''1. open''" "matches_close ''4. close''"
    "\<not> matches_close ''5. volume''" by code_simp+
  have f: "list_all is_fin (map Fin cs)" "list_all is_fin (map (\<lambda>c. Fin 100) cs)"
    by (simp_all add: list_all_iff)
  show ?thesis
    using l m f by (simp add: price_series_def bars_def rectangular_def)
qed

lemma bars_df: "df (retrieved d) = Some d"
  by (simp add: retrieved_def)

lemma bars_close_column: "close_column (bars ts cs) = Some (map Fin cs)"
proof -
  have "\<not> matches_close ''1. open''" "matches_close ''4. close''" by code_simp+
  then show ?thesis by (simp add: close_column_def bars_def)
qed

subsection \<open>The close column\<close>

lemma str_contains_sublist: "str_contains s pat = sublist pat s"
  by (induction s) (simp_all add: sublist_Cons_right)

lemma matches_close_iff:
  "matches_close name = (\<exists>u v. map lower_char name = u @ ''close'' @ v)"
  unfolding matches_close_def str_contains_sublist sublist_def by simp

text \<open>
  C3. With a frame stored, preprocessing fails with the missing-close error exactly when
  no column name contains \<^verbatim>\<open>close\<close> as a substring, ignoring case; the error is the
  outcome of the call, and on that path the object is left as it was: no field is
  assigned and no partial result is stored.
\<close>

theorem missing_close_column:
  assumes "df s = Some d"
  shows "((fst (preprocess_data s) = Some CloseColumnMissing)
            = (\<not> (\<exists>n \<in> set (map fst (df_columns d)).
                     \<exists>u v. map lower_char n = u @ ''close'' @ v)))
       \<and> (fst (preprocess_data s) = Some CloseColumnMissing \<longrightarrow> snd (preprocess_data s) = s)"
proof -
  let ?ms = "filter matches_close (map fst (df_columns d))"
  have e: "(?ms = []) = (\<not> (\<exists>n \<in> set (map fst (df_columns d)).
                     \<exists>u v. map lower_char n = u @ ''close'' @ v))"
    unfolding filter_empty_conv matches_close_iff by blast
  have "(fst (preprocess_data s) = Some CloseColumnMissing) = (?ms = [])"
    using assms
    by (cases ?ms) (simp_all add: preprocess_data_def Let_def split: list.splits)
  moreover have "fst (preprocess_data s) = Some CloseColumnMissing \<longrightarrow> snd (preprocess_data s) = s"
    using assms
    by (cases ?ms) (simp_all add: preprocess_data_def Let_def split: list.splits)
  ultimately show ?thesis unfolding e by blast
qed

theorem missing_close_column_witness:
  "preprocess_data
     (retrieved \<lparr>df_index = [1, 2],
                 df_columns = [(''1. open'', [Fin 3, Fin 4]), (''5. volume'', [Fin 9, Fin 9])]\<rparr>)
   = (Some CloseColumnMissing,
      retrieved \<lparr>df_index = [1, 2],
                 df_columns = [(''1. open'', [Fin 3, Fin 4]), (''5. volume'', [Fin 9, Fin 9])]\<rparr>)
   \<and> fst (preprocess_data
     (retrieved \<lparr>df_index = [1, 2],
                 df_columns = [(''1. open'', [Fin 3, Fin 4]), (''4. Close'', [Fin 9, Fin 9])]\<rparr>))
       \<noteq> Some CloseColumnMissing"
proof -
  have n1: "\<not> matches_close ''1. open''" by code_simp
  have n2: "\<not> matches_close ''5. volume''" by code_simp
  have y: "matches_close ''4. Close''" by code_simp
  let ?d1 = "\<lparr>df_index = [1, 2],
              df_columns = [(''1. open'', [Fin 3, Fin 4]), (''5. volume'', [Fin 9, Fin 9])]\<rparr>"
  let ?d2 = "\<lparr>df_index = [1, 2],
              df_columns = [(''1. open'', [Fin 3, Fin 4]), (''4. Close'', [Fin 9, Fin 9])]\<rparr>"
  have a: "fst (preprocess_data (retrieved ?d1)) = Some CloseColumnMissing
         \<and> snd (preprocess_data (retrieved ?d1)) = retrieved ?d1"
    using missing_close_column [of "retrieved ?d1" ?d1]
    unfolding matches_close_iff [symmetric] using n1 n2 by (simp add: retrieved_def)
  have b: "fst (preprocess_data (retrieved ?d2)) \<noteq> Some CloseColumnMissing"
    using missing_close_column [of "retrieved ?d2" ?d2]
    unfolding matches_close_iff [symmetric] using y by (simp add: retrieved_def)
  from a b show ?thesis by (metis prod.collapse)
qed

subsection \<open>Relative strength index\<close>

lemma gains_nth:
  "k < length cs \<Longrightarrow> gains cs ! k = (if k = 0 then 0 else max (cs ! k - cs ! (k - 1)) 0)"
  by (simp add: gains_def)

lemma losses_nth:
  "k < length cs \<Longrightarrow> losses cs ! k = (if k = 0 then 0 else max (cs ! (k - 1) - cs ! k) 0)"
  by (simp add: losses_def)

lemma window_nth:
  assumes "i < length xs" and "Suc i - w + j \<le> i"
  shows "window w xs i ! j = xs ! (Suc i - w + j)"
  using assms by (simp add: window_def)





text \<open>
  C8, as the code has it. In the \<^verbatim>\<open>rsi\<close> series, a cell whose average loss is zero is
  100 when its average gain is positive. When its average gain is zero too (a flat
  trailing period) the cell is the \<open>NaN\<close> of \<open>0 / 0\<close>. Nothing marks it: on a valid series
  the call raises no error and hands the cell on in the output array as it is, the very
  value the warm-up cells hold, since a float array has no null apart from \<open>NaN\<close>.
\<close>

theorem rsi_zero_loss_edge:
  assumes "i < length close" and "avg_loss close ! i = Fin 0"
  shows "(fgt (avg_gain close ! i) (Fin 0) \<longrightarrow> rsi close ! i = Fin 100)
       \<and> (avg_gain close ! i = Fin 0 \<longrightarrow> rsi close ! i = NaN)
       \<and> (df s = Some d \<and> price_series d \<and> close_column d = Some close \<longrightarrow>
            fst (preprocess_data s) = None
          \<and> (\<exists>rows. processed_data (snd (preprocess_data s)) = Some rows
                \<and> rows ! i ! 1 = rsi close ! i))"
proof (intro conjI impI)
  have r: "rsi close ! i = rsi_cell (avg_gain close ! i) (Fin 0)"
    using assms by (simp add: rsi_nth)
  have up: "rsi_cell g (Fin 0) = Fin 100" if "fgt g (Fin 0)" for g
    using that by (cases g) (simp_all add: fgt_def rsi_cell_def fsub_def)
  show "rsi close ! i = Fin 100" if "fgt (avg_gain close ! i) (Fin 0)"
    unfolding r using that by (rule up)
  show "rsi close ! i = NaN" if "avg_gain close ! i = Fin 0"
    unfolding r that by (rule rsi_cell_flat)
next
  assume v: "df s = Some d \<and> price_series d \<and> close_column d = Some close"
  then have a: "df s = Some d" and b: "price_series d" and c: "close_column d = Some close"
    by blast+
  note p = preprocess_rows [OF a b c]
  show "fst (preprocess_data s) = None" by (rule p(1))
  have "indicator_rows close ! i ! 1 = rsi close ! i"
    using assms(1) by (simp add: indicator_rows_nth)
  then show "\<exists>rows. processed_data (snd (preprocess_data s)) = Some rows
                \<and> rows ! i ! 1 = rsi close ! i"
    using p(2) by blast
qed

theorem rsi_zero_loss_edge_witness:
  "rsi (map Fin [1, 2, 3, 4, 5, 6, 7, 8, 9, 10, 11, 12, 13, 14, 15]) ! 13 = Fin 100
   \<and> rsi (map Fin [5, 5, 5, 5, 5, 5, 5, 5, 5, 5, 5, 5, 5, 5, 5]) ! 13 = NaN
   \<and> fst (preprocess_data
        (retrieved (bars [1, 2, 3, 4, 5, 6, 7, 8, 9, 10, 11, 12, 13, 14, 15]
                         [5, 5, 5, 5, 5, 5, 5, 5, 5, 5, 5, 5, 5, 5, 5]))) = None
   \<and> (\<exists>rows. processed_data (snd (preprocess_data
        (retrieved (bars [1, 2, 3, 4, 5, 6, 7, 8, 9, 10, 11, 12, 13, 14, 15]
                         [5, 5, 5, 5, 5, 5, 5, 5, 5, 5, 5, 5, 5, 5, 5])))) = Some rows
         \<and> rows ! 13 ! 1 = NaN)"
proof -
  let ?up = "map Fin [1, 2, 3, 4, 5, 6, 7, 8, 9, 10, 11, 12, 13, 14, 15]"
  let ?cs = "[5, 5, 5, 5, 5, 5, 5, 5, 5, 5, 5, 5, 5, 5, 5] :: real list"
  let ?flat = "map Fin ?cs"
  let ?d = "bars [1, 2, 3, 4, 5, 6, 7, 8, 9, 10, 11, 12, 13, 14, 15] ?cs"
  have u: "avg_loss ?up ! 13 = Fin 0" "fgt (avg_gain ?up ! 13) (Fin 0)" by code_simp+
  have f: "avg_loss ?flat ! 13 = Fin 0" "avg_gain ?flat ! 13 = Fin 0" by code_simp+
  have ps: "price_series ?d" by (rule bars_price_series) simp
  have v: "df (retrieved ?d) = Some ?d \<and> price_series ?d \<and> close_column ?d = Some ?flat"
    using ps by (simp add: bars_df bars_close_column)
  have a: "rsi ?up ! 13 = Fin 100"
    using rsi_zero_loss_edge [of 13 ?up] u by simp
  note t = rsi_zero_loss_edge [of 13 ?flat "retrieved ?d" ?d, OF _ f(1)]
  have l: "13 < length ?flat" by simp
  have b: "rsi ?flat ! 13 = NaN"
    using t [OF l, THEN conjunct2, THEN conjunct1] f(2) by blast
  have c: "fst (preprocess_data (retrieved ?d)) = None
         \<and> (\<exists>rows. processed_data (snd (preprocess_data (retrieved ?d))) = Some rows
               \<and> rows ! 13 ! 1 = rsi ?flat ! 13)"
    using t [OF l, THEN conjunct2, THEN conjunct2] v by blast
  from c have c': "fst (preprocess_data (retrieved ?d)) = None
         \<and> (\<exists>rows. processed_data (snd (preprocess_data (retrieved ?d))) = Some rows
               \<and> rows ! 13 ! 1 = NaN)"
    unfolding b .
  from a b c' show ?thesis by blast
qed

theorem rsi_zero_loss_edge_counterexample:
  "avg_gain (map Fin [5, 5, 5, 5, 5, 5, 5, 5, 5, 5, 5, 5, 5, 5, 5]) ! 13 = Fin 0
   \<and> avg_loss (map Fin [5, 5, 5, 5, 5, 5, 5, 5, 5, 5, 5, 5, 5, 5, 5]) ! 13 = Fin 0
   \<and> fst (preprocess_data
        (retrieved (bars [1, 2, 3, 4, 5, 6, 7, 8, 9, 10, 11, 12, 13, 14, 15]
                         [5, 5, 5, 5, 5, 5, 5, 5, 5, 5, 5, 5, 5, 5, 5]))) = None
   \<and> the (processed_data (snd (preprocess_data
        (retrieved (bars [1, 2, 3, 4, 5, 6, 7, 8, 9, 10, 11, 12, 13, 14, 15]
                         [5, 5, 5, 5, 5, 5, 5, 5, 5, 5, 5, 5, 5, 5, 5]))))) ! 13 ! 1 = NaN
   \<and> the (processed_data (snd (preprocess_data
        (retrieved (bars [1, 2, 3, 4, 5, 6, 7, 8, 9, 10, 11, 12, 13, 14, 15]
                         [5, 5, 5, 5, 5, 5, 5, 5, 5, 5, 5, 5, 5, 5, 5]))))) ! 0 ! 1 = NaN"
proof -
  let ?cs = "[5, 5, 5, 5, 5, 5, 5, 5, 5, 5, 5, 5, 5, 5, 5] :: real list"
  let ?d = "bars [1, 2, 3, 4, 5, 6, 7, 8, 9, 10, 11, 12, 13, 14, 15] ?cs"
  have ps: "price_series ?d" by (rule bars_price_series) simp
  note p = preprocess_rows [OF bars_df ps bars_close_column]
  have g: "avg_gain (map Fin ?cs) ! 13 = Fin 0" "avg_loss (map Fin ?cs) ! 13 = Fin 0"
    by code_simp+
  have v: "rsi (map Fin ?cs) ! 13 = NaN" "rsi (map Fin ?cs) ! 0 = NaN" by code_simp+
  have "the (processed_data (snd (preprocess_data (retrieved ?d)))) ! 13 ! 1
          = rsi (map Fin ?cs) ! 13"
    unfolding p(2) by (simp add: indicator_rows_nth)
  moreover have "the (processed_data (snd (preprocess_data (retrieved ?d)))) ! 0 ! 1
          = rsi (map Fin ?cs) ! 0"
    unfolding p(2) by (simp add: indicator_rows_nth)
  ultimately show ?thesis using g v p(1) by simp
qed

lemma mean_zero_iff:
  assumes "\<And>k. k \<in> {i + 1 - W..i} \<Longrightarrow> 0 \<le> xs ! k" and "0 < W"
  shows "(naive_mean W xs i = 0) = (\<forall>k \<in> {i + 1 - W..i}. xs ! k = 0)"
proof -
  have "((\<Sum>k = i + 1 - W..i. xs ! k) = 0) = (\<forall>k \<in> {i + 1 - W..i}. xs ! k = 0)"
    using assms(1) by (intro sum_nonneg_eq_0_iff) auto
  then show ?thesis using assms(2) by (simp add: naive_mean_def)
qed

lemma rsi_Fin_null:
  assumes "i < length cs"
  shows "isna (rsi (map Fin cs) ! i) =
           (i < 13 \<or> (naive_mean 14 (gains cs) i = 0 \<and> naive_mean 14 (losses cs) i = 0))"
proof (cases "i < 13")
  case True
  then show ?thesis using assms by (simp add: rsi_nth avg_gain_Fin avg_loss_Fin rsi_cell_def fsub_def)
next
  case False
  have g: "0 \<le> naive_mean 14 (gains cs) i"
    using assms by (intro naive_mean_nonneg) (simp_all add: gains_def)
  have l: "0 \<le> naive_mean 14 (losses cs) i"
    using assms by (intro naive_mean_nonneg) (simp_all add: losses_def)
  show ?thesis
    using False assms rsi_cell_Fin [OF g l]
    by (simp add: rsi_nth avg_gain_Fin avg_loss_Fin)
qed

lemma flat_window_iff:
  assumes "i < length cs"
  shows "(naive_mean 14 (gains cs) i = 0 \<and> naive_mean 14 (losses cs) i = 0)
           = (\<forall>k. i - 13 \<le> k \<and> k \<le> i \<and> 1 \<le> k \<longrightarrow> cs ! k = cs ! (k - 1))"
proof -
  have g: "(naive_mean 14 (gains cs) i = 0) = (\<forall>k \<in> {i + 1 - 14..i}. gains cs ! k = 0)"
    using assms by (intro mean_zero_iff) (simp_all add: gains_nth)
  have l: "(naive_mean 14 (losses cs) i = 0) = (\<forall>k \<in> {i + 1 - 14..i}. losses cs ! k = 0)"
    using assms by (intro mean_zero_iff) (simp_all add: losses_nth)
  have k: "(gains cs ! k = 0 \<and> losses cs ! k = 0) = (1 \<le> k \<longrightarrow> cs ! k = cs ! (k - 1))"
    if "k \<in> {i + 1 - 14..i}" for k
  proof -
    have "k < length cs" using that assms by simp
    then show ?thesis by (auto simp: gains_nth losses_nth max_def)
  qed
  have "(naive_mean 14 (gains cs) i = 0 \<and> naive_mean 14 (losses cs) i = 0)
          = (\<forall>k \<in> {i + 1 - 14..i}. gains cs ! k = 0 \<and> losses cs ! k = 0)"
    unfolding g l by blast
  also have "\<dots> = (\<forall>k \<in> {i + 1 - 14..i}. 1 \<le> k \<longrightarrow> cs ! k = cs ! (k - 1))"
    using k by blast
  also have "\<dots> = (\<forall>k. i - 13 \<le> k \<and> k \<le> i \<and> 1 \<le> k \<longrightarrow> cs ! k = cs ! (k - 1))"
    by auto
  finally show ?thesis .
qed




subsection \<open>Rolling moving average\<close>

lemma rolling_mean_missing:
  assumes "i < length xs" and "Suc i - w \<le> k" and "k \<le> i" and "\<not> is_fin (xs ! k)"
  shows "rolling_mean w xs ! i = NaN"
proof -
  have l: "length (window w xs i) = min w (Suc i)" using assms(1) by (rule length_window)
  have "window w xs i ! (k - (Suc i - w)) = xs ! k"
    using window_nth [OF assms(1), of w "k - (Suc i - w)"] assms(2,3) by simp
  moreover have "k - (Suc i - w) < length (window w xs i)"
    unfolding l using assms(2,3) by auto
  ultimately have "xs ! k \<in> set (window w xs i)"
    by (metis nth_mem)
  then have "length (observations (window w xs i)) < length (window w xs i)"
    unfolding observations_def using assms(4) by (rule length_filter_less)
  then have "length (observations (window w xs i)) < w"
    unfolding l by simp
  then show ?thesis using assms(1) by (simp add: rolling_mean_def Let_def)
qed

text \<open>
  C5, as the code has it. With window \<open>W = 10\<close>, the column \<^verbatim>\<open>rolling_ma\<close> (column 0 of
  the output array) of a valid price series with closes at most \<open>2\<^sup>1\<^sup>0\<^sup>0\<close> in magnitude is
  null exactly at the indices \<open>i < W - 1 = 9\<close>. At an index \<open>i \<ge> 9\<close> it is the float64
  rolling mean of \<open>close[i-9 .. i]\<close>, and it is the arithmetic mean itself wherever float64
  computes that mean exactly: the closes up to \<open>i\<close> are integers of magnitude at most
  \<open>2\<^sup>4\<^sup>0\<close> and the mean is a multiple of one half. The closes \<open>1, 2, ..., 11\<close> are such a
  series: null at 0 to 8, 5.5 at 9, 6.5 at 10. In any series, a window that holds a cell
  which is not finite has fewer than \<open>W\<close> observations and gives null.
\<close>

theorem rolling_ma_window_mean:
  assumes "df s = Some d" and "price_series d" and "close_column d = Some close"
    and "list_all (\<lambda>x. \<bar>val x\<bar> \<le> 2 ^ 100) close"
  shows "(\<exists>rows. processed_data (snd (preprocess_data s)) = Some rows
           \<and> length rows = length (df_index d)
           \<and> (\<forall>i<length (df_index d).
                 isna (rows ! i ! 0) = (i < 9)
               \<and> (9 \<le> i \<and> (\<forall>k\<le>i. val (close ! k) \<in> \<int> \<and> \<bar>val (close ! k)\<bar> \<le> 2 ^ 40)
                    \<and> 2 * naive_mean 10 (map val close) i \<in> \<int>
                   \<longrightarrow> rows ! i ! 0 = Fin (naive_mean 10 (map val close) i))))
       \<and> (j < length c \<and> (\<exists>k. Suc j - 10 \<le> k \<and> k \<le> j \<and> \<not> is_fin (c ! k))
            \<longrightarrow> rolling_ma c ! j = NaN)"
proof
  note r = preprocess_rows [OF assms(1,2,3)]
  have "isna (indicator_rows close ! i ! 0) = (i < 9)
      \<and> (9 \<le> i \<and> (\<forall>k\<le>i. val (close ! k) \<in> \<int> \<and> \<bar>val (close ! k)\<bar> \<le> 2 ^ 40)
           \<and> 2 * naive_mean 10 (map val close) i \<in> \<int>
          \<longrightarrow> indicator_rows close ! i ! 0 = Fin (naive_mean 10 (map val close) i))"
    if "i < length (df_index d)" for i
  proof -
    have "rolling_ma close ! i = (if i < 9 then NaN else Fin (naive_mean 10 (map val close) i))"
      by (subst r(5)) (use that r(4) in \<open>simp only: rolling_ma_Fin length_map\<close>)
    then show ?thesis using that r(4) by (simp add: indicator_rows_nth)
  qed
  then show "\<exists>rows. processed_data (snd (preprocess_data s)) = Some rows
           \<and> length rows = length (df_index d)
           \<and> (\<forall>i<length (df_index d).
                 isna (rows ! i ! 0) = (i < 9)
               \<and> (9 \<le> i \<and> (\<forall>k\<le>i. val (close ! k) \<in> \<int> \<and> \<bar>val (close ! k)\<bar> \<le> 2 ^ 40)
                    \<and> 2 * naive_mean 10 (map val close) i \<in> \<int>
                   \<longrightarrow> rows ! i ! 0 = Fin (naive_mean 10 (map val close) i)))"
    using r(2) r(4) by (simp add: length_indicator_rows)
  show "j < length c \<and> (\<exists>k. Suc j - 10 \<le> k \<and> k \<le> j \<and> \<not> is_fin (c ! k))
            \<longrightarrow> rolling_ma c ! j = NaN"
    unfolding rolling_ma_def rolling_window_def using rolling_mean_missing by blast
qed

theorem rolling_ma_window_mean_witness:
  "(\<exists>rows. processed_data (snd (preprocess_data
              (retrieved (bars [1, 2, 3, 4, 5, 6, 7, 8, 9, 10, 11]
                               [1, 2, 3, 4, 5, 6, 7, 8, 9, 10, 11])))) = Some rows
     \<and> length rows = 11
     \<and> (\<forall>i<9. isna (rows ! i ! 0))
     \<and> rows ! 9 ! 0 = Fin 5.5
     \<and> rows ! 10 ! 0 = Fin 6.5)
   \<and> rolling_ma (PInf # map Fin [1, 2, 3, 4, 5, 6, 7, 8, 9]) ! 9 = NaN"
proof -
  let ?cs = "[1, 2, 3, 4, 5, 6, 7, 8, 9, 10, 11] :: real list"
  let ?d = "bars [1, 2, 3, 4, 5, 6, 7, 8, 9, 10, 11] ?cs"
  let ?c = "PInf # map Fin [1, 2, 3, 4, 5, 6, 7, 8, 9]"
  have ps: "price_series ?d" by (rule bars_price_series) simp
  have bd: "list_all (\<lambda>x. \<bar>val x\<bar> \<le> 2 ^ 100) (map Fin ?cs)"
    by (simp add: list_all_iff)
  have m9: "naive_mean 10 ?cs 9 = 5.5"
    by (simp add: naive_mean_def eval_nat_numeral)
  have m10: "naive_mean 10 ?cs 10 = 6.5"
    by (simp add: naive_mean_def eval_nat_numeral sum.atLeast_Suc_atMost)
  have ints: "list_all (\<lambda>x. val x \<in> \<int> \<and> \<bar>val x\<bar> \<le> 2 ^ 40) (map Fin ?cs)"
    by (simp add: list_all_iff)
  have pre: "val (map Fin ?cs ! k) \<in> \<int> \<and> \<bar>val (map Fin ?cs ! k)\<bar> \<le> 2 ^ 40" if "k \<le> 10" for k
    using ints that unfolding list_all_length by simp
  have h9: "2 * naive_mean 10 ?cs 9 \<in> \<int>" unfolding m9 by simp
  have h10: "2 * naive_mean 10 ?cs 10 \<in> \<int>" unfolding m10 by simp
  have ix: "length (df_index ?d) = 11" by (simp add: bars_def)
  have inf: "(9::nat) < length ?c \<and> (\<exists>k. Suc 9 - 10 \<le> k \<and> k \<le> 9 \<and> \<not> is_fin (?c ! k))"
    by (auto intro!: exI [of _ 0])
  note t = rolling_ma_window_mean [OF bars_df ps bars_close_column bd, of 9 ?c]
  from t [THEN conjunct1] obtain rows where
    r: "processed_data (snd (preprocess_data (retrieved ?d))) = Some rows"
       "length rows = 11"
       "\<forall>i<11. isna (rows ! i ! 0) = (i < 9)
               \<and> (9 \<le> i \<and> (\<forall>k\<le>i. val (map Fin ?cs ! k) \<in> \<int> \<and> \<bar>val (map Fin ?cs ! k)\<bar> \<le> 2 ^ 40)
                    \<and> 2 * naive_mean 10 ?cs i \<in> \<int>
                   \<longrightarrow> rows ! i ! 0 = Fin (naive_mean 10 ?cs i))"
    unfolding ix by (auto simp: comp_def)
  from r(3) have a: "\<forall>i<9. isna (rows ! i ! 0)" by auto
  from r(3) have "(\<forall>k\<le>9. val (map Fin ?cs ! k) \<in> \<int> \<and> \<bar>val (map Fin ?cs ! k)\<bar> \<le> 2 ^ 40)
                    \<and> 2 * naive_mean 10 ?cs 9 \<in> \<int>
                   \<longrightarrow> rows ! 9 ! 0 = Fin (naive_mean 10 ?cs 9)"
    by force
  then have b: "rows ! 9 ! 0 = Fin 5.5" using pre h9 m9 by simp
  from r(3) have "(\<forall>k\<le>10. val (map Fin ?cs ! k) \<in> \<int> \<and> \<bar>val (map Fin ?cs ! k)\<bar> \<le> 2 ^ 40)
                    \<and> 2 * naive_mean 10 ?cs 10 \<in> \<int>
                   \<longrightarrow> rows ! 10 ! 0 = Fin (naive_mean 10 ?cs 10)"
    by force
  then have c: "rows ! 10 ! 0 = Fin 6.5" using pre h10 m10 by simp
  have e: "rolling_ma ?c ! 9 = NaN"
    using t [THEN conjunct2] inf by blast
  from r(1,2) a b c e show ?thesis by blast
qed

theorem rolling_ma_window_mean_counterexample:
  "mean [PInf, Fin 1, Fin 2, Fin 3, Fin 4, Fin 5, Fin 6, Fin 7, Fin 8, Fin 9] = PInf
   \<and> the (processed_data (snd (preprocess_data
      (retrieved \<lparr>df_index = [1, 2, 3, 4, 5, 6, 7, 8, 9, 10],
                  df_columns = [(''4. close'',
                     [PInf, Fin 1, Fin 2, Fin 3, Fin 4, Fin 5, Fin 6, Fin 7, Fin 8, Fin 9])]\<rparr>)))) ! 9 ! 0
     = NaN"
proof -
  have mc: "matches_close ''4. close''" by code_simp
  note defs = preprocess_data_def rename_columns_def fillna_ffill_def
      dropna_def row_complete_def keep_def getitem_def setitem_def values_of_def
      rolling_ma_def rsi_def upper_band_def lower_band_def rolling_mean_def rolling_std_def
      avg_gain_def avg_loss_def gain_def loss_def diff_def where_series_def window_def
      observations_def rsi_cell_def fsub_def fgt_def period_def rolling_window_def
      std_multiplier_def Let_def upt_rec_numeral
  have "mean [PInf, Fin 1, Fin 2, Fin 3, Fin 4, Fin 5, Fin 6, Fin 7, Fin 8, Fin 9] = PInf"
    by (simp add: mean_def fsum_def)
  moreover have "the (processed_data (snd (preprocess_data
      (retrieved \<lparr>df_index = [1, 2, 3, 4, 5, 6, 7, 8, 9, 10],
                  df_columns = [(''4. close'',
                     [PInf, Fin 1, Fin 2, Fin 3, Fin 4, Fin 5, Fin 6, Fin 7, Fin 8, Fin 9])]\<rparr>)))) ! 9 ! 0
     = NaN"
    by (simp add: retrieved_def mc defs)
  ultimately show ?thesis ..
qed

subsection \<open>Alignment and nulls\<close>

text \<open>
  C4, as the code has it. On a valid price series whose closes are at most \<open>2\<^sup>1\<^sup>0\<^sup>0\<close> in
  magnitude, the call succeeds, the output array has one row of four cells per input
  row and the timestamps are the input index, entry by entry. \<^verbatim>\<open>rolling_ma\<close>,
  \<^verbatim>\<open>upper_band\<close> and \<^verbatim>\<open>lower_band\<close> are null exactly at the indices below 9 and never
  after. \<^verbatim>\<open>rsi\<close> is null at the indices below 13, and it is null again, however long the
  history, at every index where the close did not move over the trailing 14 steps.

  The bound on the closes is there for the program, not for the proof: it keeps every
  float64 sum and square of a window far inside the float64 range, where the running
  sums of pandas cannot turn into \<open>\<plusminus>\<infinity>\<close> or \<open>NaN\<close>. With closes near the largest float64
  the program has null cells after the warm-up in every column.
\<close>

theorem aligned_output:
  assumes "df s = Some d" and "price_series d" and "close_column d = Some close"
    and "list_all (\<lambda>x. \<bar>val x\<bar> \<le> 2 ^ 100) close"
  shows "fst (preprocess_data s) = None
       \<and> timestamps (snd (preprocess_data s)) = Some (df_index d)
       \<and> (\<exists>rows. processed_data (snd (preprocess_data s)) = Some rows
             \<and> length rows = length (df_index d)
             \<and> (\<forall>i<length (df_index d).
                   length (rows ! i) = 4
                 \<and> isna (rows ! i ! 0) = (i < 9)
                 \<and> isna (rows ! i ! 2) = (i < 9)
                 \<and> isna (rows ! i ! 3) = (i < 9)
                 \<and> (i < 13 \<longrightarrow> isna (rows ! i ! 1))
                 \<and> ((\<forall>k. i - 13 \<le> k \<and> k \<le> i \<and> 1 \<le> k
                          \<longrightarrow> val (close ! k) = val (close ! (k - 1)))
                      \<longrightarrow> isna (rows ! i ! 1))))"
proof -
  note r = preprocess_rows [OF assms(1,2,3)]
  define cs where "cs = map val close"
  have c: "close = map Fin cs" unfolding cs_def by (rule r(5))
  have n: "length cs = length (df_index d)" using r(4) by (simp add: cs_def)
  have "length (indicator_rows close ! i) = 4
      \<and> isna (indicator_rows close ! i ! 0) = (i < 9)
      \<and> isna (indicator_rows close ! i ! 2) = (i < 9)
      \<and> isna (indicator_rows close ! i ! 3) = (i < 9)
      \<and> (i < 13 \<longrightarrow> isna (indicator_rows close ! i ! 1))
      \<and> ((\<forall>k. i - 13 \<le> k \<and> k \<le> i \<and> 1 \<le> k
               \<longrightarrow> val (close ! k) = val (close ! (k - 1)))
           \<longrightarrow> isna (indicator_rows close ! i ! 1))"
    if "i < length (df_index d)" for i
  proof -
    have i: "i < length cs" using that n by simp
    have row: "indicator_rows close ! i =
        [rolling_ma close ! i, rsi close ! i, upper_band close ! i, lower_band close ! i]"
      using that r(4) by (simp add: indicator_rows_nth)
    have 0: "isna (rolling_ma close ! i) = (i < 9)"
      unfolding c using i by (simp add: rolling_ma_Fin)
    have 2: "isna (upper_band close ! i) = (i < 9)"
      unfolding c using i by (simp add: upper_band_Fin)
    have 3: "isna (lower_band close ! i) = (i < 9)"
      unfolding c using i by (simp add: lower_band_Fin)
    have v: "val (close ! k) = cs ! k" if "k \<le> i" for k
      using that i by (simp add: cs_def)
    have f: "(naive_mean 14 (gains cs) i = 0 \<and> naive_mean 14 (losses cs) i = 0)
               = (\<forall>k. i - 13 \<le> k \<and> k \<le> i \<and> 1 \<le> k \<longrightarrow> cs ! k = cs ! (k - 1))"
      using i by (rule flat_window_iff)
    have e: "(\<forall>k. i - 13 \<le> k \<and> k \<le> i \<and> 1 \<le> k \<longrightarrow> cs ! k = cs ! (k - 1))
             = (\<forall>k. i - 13 \<le> k \<and> k \<le> i \<and> 1 \<le> k
                     \<longrightarrow> val (close ! k) = val (close ! (k - 1)))"
    proof (intro iff_allI imp_cong refl)
      fix k assume "i - 13 \<le> k \<and> k \<le> i \<and> 1 \<le> k"
      then have "k \<le> i" "k - 1 \<le> i" by auto
      then show "(cs ! k = cs ! (k - 1)) = (val (close ! k) = val (close ! (k - 1)))"
        using v by simp
    qed
    have "isna (rsi (map Fin cs) ! i) =
            (i < 13 \<or> (naive_mean 14 (gains cs) i = 0 \<and> naive_mean 14 (losses cs) i = 0))"
      using i by (rule rsi_Fin_null)
    then have 1: "isna (rsi close ! i) =
            (i < 13 \<or> (\<forall>k. i - 13 \<le> k \<and> k \<le> i \<and> 1 \<le> k
                          \<longrightarrow> val (close ! k) = val (close ! (k - 1))))"
      unfolding f e c [symmetric] .
    show ?thesis unfolding row using 0 1 2 3 by simp
  qed
  then show ?thesis using r(1,2,3,4) by (simp add: length_indicator_rows)
qed

theorem aligned_output_witness:
  "fst (preprocess_data (retrieved (bars [1, 2, 3, 4, 5, 6, 7, 8, 9, 10, 11, 12, 13, 14, 15, 16]
                                         (1 # replicate 15 2)))) = None
   \<and> timestamps (snd (preprocess_data
         (retrieved (bars [1, 2, 3, 4, 5, 6, 7, 8, 9, 10, 11, 12, 13, 14, 15, 16]
                          (1 # replicate 15 2)))))
       = Some [1, 2, 3, 4, 5, 6, 7, 8, 9, 10, 11, 12, 13, 14, 15, 16]
   \<and> (\<exists>rows. processed_data (snd (preprocess_data
         (retrieved (bars [1, 2, 3, 4, 5, 6, 7, 8, 9, 10, 11, 12, 13, 14, 15, 16]
                          (1 # replicate 15 2))))) = Some rows
         \<and> length rows = 16
         \<and> (\<forall>i<16. length (rows ! i) = 4 \<and> isna (rows ! i ! 0) = (i < 9)
                     \<and> isna (rows ! i ! 2) = (i < 9) \<and> isna (rows ! i ! 3) = (i < 9))
         \<and> (\<forall>i<13. isna (rows ! i ! 1))
         \<and> isna (rows ! 15 ! 1))"
proof -
  let ?ts = "[1, 2, 3, 4, 5, 6, 7, 8, 9, 10, 11, 12, 13, 14, 15, 16] :: int list"
  let ?cs = "1 # replicate 15 2 :: real list"
  let ?d = "bars ?ts ?cs"
  have ps: "price_series ?d" by (rule bars_price_series) simp
  have ix: "df_index ?d = ?ts" by (simp add: bars_def)
  have bd: "list_all (\<lambda>x. \<bar>val x\<bar> \<le> 2 ^ 100) (map Fin ?cs)"
    by (simp add: list_all_iff)
  have flat: "\<forall>k. 15 - 13 \<le> k \<and> k \<le> 15 \<and> 1 \<le> k
                 \<longrightarrow> val (map Fin ?cs ! k) = val (map Fin ?cs ! (k - 1))"
    by (auto simp: nth_Cons')
  from aligned_output [OF bars_df ps bars_close_column bd]
  obtain rows where
    r: "fst (preprocess_data (retrieved ?d)) = None"
       "timestamps (snd (preprocess_data (retrieved ?d))) = Some ?ts"
       "processed_data (snd (preprocess_data (retrieved ?d))) = Some rows"
       "length rows = 16"
       "\<forall>i<16. length (rows ! i) = 4
                 \<and> isna (rows ! i ! 0) = (i < 9)
                 \<and> isna (rows ! i ! 2) = (i < 9)
                 \<and> isna (rows ! i ! 3) = (i < 9)
                 \<and> (i < 13 \<longrightarrow> isna (rows ! i ! 1))
                 \<and> ((\<forall>k. i - 13 \<le> k \<and> k \<le> i \<and> 1 \<le> k
                          \<longrightarrow> val (map Fin ?cs ! k) = val (map Fin ?cs ! (k - 1)))
                      \<longrightarrow> isna (rows ! i ! 1))"
    unfolding ix by auto
  from r(5) have a: "\<forall>i<16. length (rows ! i) = 4 \<and> isna (rows ! i ! 0) = (i < 9)
                     \<and> isna (rows ! i ! 2) = (i < 9) \<and> isna (rows ! i ! 3) = (i < 9)"
    by blast
  from r(5) have b: "\<forall>i<13. isna (rows ! i ! 1)" by auto
  from r(5) have "(\<forall>k. 15 - 13 \<le> k \<and> k \<le> 15 \<and> 1 \<le> k
                          \<longrightarrow> val (map Fin ?cs ! k) = val (map Fin ?cs ! (k - 1)))
                      \<longrightarrow> isna (rows ! 15 ! 1)"
    by force
  with flat have c: "isna (rows ! 15 ! 1)" by blast
  from r(1,2,3,4) a b c show ?thesis by blast
qed

theorem aligned_output_counterexample:
  "the (processed_data (snd (preprocess_data
          (retrieved (bars [1, 2, 3, 4, 5, 6, 7, 8, 9, 10, 11, 12, 13, 14, 15, 16]
                           [1, 2, 2, 2, 2, 2, 2, 2, 2, 2, 2, 2, 2, 2, 2, 2]))))) ! 14 ! 1
     = Fin 100
   \<and> isna (the (processed_data (snd (preprocess_data
          (retrieved (bars [1, 2, 3, 4, 5, 6, 7, 8, 9, 10, 11, 12, 13, 14, 15, 16]
                           [1, 2, 2, 2, 2, 2, 2, 2, 2, 2, 2, 2, 2, 2, 2, 2]))))) ! 15 ! 1)"
proof -
  let ?cs = "[1, 2, 2, 2, 2, 2, 2, 2, 2, 2, 2, 2, 2, 2, 2, 2] :: real list"
  let ?d = "bars [1, 2, 3, 4, 5, 6, 7, 8, 9, 10, 11, 12, 13, 14, 15, 16] ?cs"
  have ps: "price_series ?d" by (rule bars_price_series) simp
  have v: "rsi (map Fin ?cs) ! 14 = Fin 100" "rsi (map Fin ?cs) ! 15 = NaN" by code_simp+
  have "the (processed_data (snd (preprocess_data (retrieved ?d)))) ! 14 ! 1
          = rsi (map Fin ?cs) ! 14"
    unfolding preprocess_rows(2) [OF bars_df ps bars_close_column]
    by (simp add: indicator_rows_nth)
  moreover have "the (processed_data (snd (preprocess_data (retrieved ?d)))) ! 15 ! 1
          = rsi (map Fin ?cs) ! 15"
    unfolding preprocess_rows(2) [OF bars_df ps bars_close_column]
    by (simp add: indicator_rows_nth)
  ultimately show ?thesis using v by simp
qed

subsection \<open>Timestamps\<close>

lemma subseq_keep: "subseq (keep kept xs) xs"
proof (induction xs arbitrary: kept)
  case Nil
  then show ?case by (simp add: keep_def)
next
  case (Cons x xs)
  show ?case
  proof (cases kept)
    case Nil
    then show ?thesis by (simp add: keep_def)
  next
    case (Cons b bs)
    have "subseq (keep bs xs) xs" by (rule Cons.IH)
    then show ?thesis using Cons by (cases b) (auto simp: keep_def)
  qed
qed

lemma df_index_dropna:
  "df_index (dropna d) = keep (map (row_complete d) [0..<length (df_index d)]) (df_index d)"
  by (simp add: dropna_def Let_def)

lemma df_index_normalised:
  "subseq (df_index (dropna (fillna_ffill (rename_columns a b d)))) (df_index d)"
proof -
  have "df_index (fillna_ffill (rename_columns a b d)) = df_index d"
    by (simp add: fillna_ffill_def rename_columns_def)
  then show ?thesis
    using subseq_keep [of "map (row_complete (fillna_ffill (rename_columns a b d)))
                             [0..<length (df_index d)]" "df_index d"]
    by (simp add: df_index_dropna)
qed

text \<open>
  C9, as the code has it. The preprocessing never looks at the index: there is no check
  of the timestamps and no error for them. Whenever the call succeeds, the timestamps it
  stores are input timestamps in their input order (those of the rows that
  \<^verbatim>\<open>dropna\<close> kept), and on a valid price series, whose index may be in any order and
  may repeat, the call succeeds and stores the input index unchanged, with an output row
  for each entry: nothing is rejected, reordered or deduplicated.
\<close>

theorem timestamps_not_validated:
  assumes "df s = Some d"
  shows "(fst (preprocess_data s) = None \<longrightarrow>
            (\<exists>ts. timestamps (snd (preprocess_data s)) = Some ts \<and> subseq ts (df_index d)))
       \<and> (price_series d \<longrightarrow>
            fst (preprocess_data s) = None
          \<and> timestamps (snd (preprocess_data s)) = Some (df_index d)
          \<and> (\<exists>rows. processed_data (snd (preprocess_data s)) = Some rows
                \<and> length rows = length (df_index d)))"
proof
  show "fst (preprocess_data s) = None \<longrightarrow>
            (\<exists>ts. timestamps (snd (preprocess_data s)) = Some ts \<and> subseq ts (df_index d))"
    using assms df_index_normalised
    by (auto simp: preprocess_data_def Let_def df_index_setitem split: list.splits)
  show "price_series d \<longrightarrow>
            fst (preprocess_data s) = None
          \<and> timestamps (snd (preprocess_data s)) = Some (df_index d)
          \<and> (\<exists>rows. processed_data (snd (preprocess_data s)) = Some rows
                \<and> length rows = length (df_index d))"
  proof
    assume ps: "price_series d"
    from preprocess_price_series [OF assms ps] obtain close where
      "close_column d = Some close" by blast
    from preprocess_rows [OF assms ps this] show
      "fst (preprocess_data s) = None
          \<and> timestamps (snd (preprocess_data s)) = Some (df_index d)
          \<and> (\<exists>rows. processed_data (snd (preprocess_data s)) = Some rows
                \<and> length rows = length (df_index d))"
      by (simp add: length_indicator_rows)
  qed
qed

theorem timestamps_not_validated_witness:
  "fst (preprocess_data (retrieved (bars [3, 1, 1] [5, 6, 7]))) = None
   \<and> timestamps (snd (preprocess_data (retrieved (bars [3, 1, 1] [5, 6, 7])))) = Some [3, 1, 1]
   \<and> (\<exists>rows. processed_data (snd (preprocess_data (retrieved (bars [3, 1, 1] [5, 6, 7]))))
                = Some rows \<and> length rows = 3)"
proof -
  have ps: "price_series (bars [3, 1, 1] [5, 6, 7])" by (rule bars_price_series) simp
  have ix: "df_index (bars [3, 1, 1] [5, 6, 7]) = [3, 1, 1]" by (simp add: bars_def)
  from timestamps_not_validated [OF bars_df, of "bars [3, 1, 1] [5, 6, 7]"] ps
  show ?thesis unfolding ix by (simp add: eval_nat_numeral)
qed

theorem timestamps_not_validated_counterexample:
  "\<not> sorted_wrt (<) [3, 1, 1 :: int] \<and> \<not> distinct [3, 1, 1 :: int]
   \<and> fst (preprocess_data (retrieved (bars [3, 1, 1] [5, 6, 7]))) = None
   \<and> timestamps (snd (preprocess_data (retrieved (bars [3, 1, 1] [5, 6, 7])))) = Some [3, 1, 1]
   \<and> processed_data (snd (preprocess_data (retrieved (bars [3, 1, 1] [5, 6, 7])))) \<noteq> None"
proof -
  have ps: "price_series (bars [3, 1, 1] [5, 6, 7])" by (rule bars_price_series) simp
  have ix: "df_index (bars [3, 1, 1] [5, 6, 7]) = [3, 1, 1]" by (simp add: bars_def)
  note r = preprocess_rows [OF bars_df ps bars_close_column]
  show ?thesis using r(1,2,3) by (simp add: ix)
qed

subsection \<open>Repeated calls on one object\<close>

lemma length_values_of: "length (values_of d names) = length (df_index d)"
  by (simp add: values_of_def Let_def)

lemma df_index_with_indicators: "df_index (with_indicators d close) = df_index d"
  by (simp add: with_indicators_def df_index_setitem)

lemma names_fillna_dropna:
  "map fst (df_columns (fillna_ffill d)) = map fst (df_columns d)"
  "map fst (df_columns (dropna d)) = map fst (df_columns d)"
  by (simp_all add: fillna_ffill_def dropna_def Let_def comp_def case_prod_beta)

lemma rename_same: "rename_columns a a d = d"
proof -
  have "map (\<lambda>(n, c). (if n = a then a else n, c)) (df_columns d) = df_columns d"
    by (intro map_idI) auto
  then show ?thesis by (simp add: rename_columns_def)
qed

lemma first_match_renamed:
  assumes "filter P names = c0 # rest" and "P new"
  shows "\<exists>rest'. filter P (map (\<lambda>n. if n = c0 then new else n) names) = new # rest'"
  using assms(1)
proof (induction names)
  case Nil
  then show ?case by simp
next
  case (Cons n ns)
  have pc: "P c0"
    using Cons.prems by (metis filter_eq_ConsD)
  show ?case
  proof (cases "P n")
    case True
    then have "n = c0" using Cons.prems by simp
    then show ?thesis using assms(2) by simp
  next
    case False
    then have "n \<noteq> c0" using pc by blast
    moreover have "filter P ns = c0 # rest" using False Cons.prems by simp
    ultimately show ?thesis using False Cons.IH by simp
  qed
qed

lemma first_match_setitem:
  assumes "filter P (map fst (df_columns d)) = x # rest"
  shows "\<exists>rest'. filter P (map fst (df_columns (setitem d n v))) = x # rest'"
  unfolding names_setitem using assms by simp

lemma first_match_with_indicators:
  assumes "filter P (map fst (df_columns d)) = x # rest"
  shows "\<exists>rest'. filter P (map fst (df_columns (with_indicators d close))) = x # rest'"
  unfolding with_indicators_def
  using assms by (metis first_match_setitem)

lemma distinct_with_indicators:
  "distinct (map fst (df_columns d)) \<Longrightarrow> distinct (map fst (df_columns (with_indicators d close)))"
  unfolding with_indicators_def by (intro distinct_setitem)

lemma getitem_single:
  assumes "distinct (map fst (df_columns d))" and "n \<in> set (map fst (df_columns d))"
  shows "\<exists>c. getitem d n = [c]"
proof -
  from assms(2) obtain c where "map_of (df_columns d) n = Some c"
    by (metis map_of_eq_None_iff not_Some_eq set_map)
  with assms(1) have "getitem d n = [c]"
    unfolding getitem_def by (rule select_distinct)
  then show ?thesis ..
qed

lemma column_setitem_same: "(n, v) \<in> set (df_columns (setitem d n v))"
  by (force simp: setitem_def image_iff)

lemma column_setitem_other:
  "(m, w) \<in> set (df_columns d) \<Longrightarrow> m \<noteq> n \<Longrightarrow> (m, w) \<in> set (df_columns (setitem d n v))"
  by (force simp: setitem_def image_iff)

lemma rolling_ma_column:
  "(''rolling_ma'', rolling_ma close) \<in> set (df_columns (with_indicators d close))"
  unfolding with_indicators_def
  by (intro column_setitem_other column_setitem_same) simp_all

lemma ffill_from_head: "xs \<noteq> [] \<Longrightarrow> isna (xs ! 0) \<Longrightarrow> isna (ffill_from NaN xs ! 0)"
  by (cases xs) simp_all

lemma rolling_ma_head: "close \<noteq> [] \<Longrightarrow> isna (rolling_ma close ! 0)"
proof -
  assume "close \<noteq> []"
  have "window 10 close 0 = take 1 close"
    by (simp add: window_def)
  then have "length (observations (window 10 close 0)) \<le> length (take 1 close)"
    unfolding observations_def by (simp only: length_filter_le)
  then have "length (observations (window 10 close 0)) \<le> 1"
    by simp
  then show ?thesis
    using \<open>close \<noteq> []\<close> by (simp add: rolling_ma_def rolling_window_def rolling_mean_def Let_def)
qed

lemma length_keep_less:
  assumes "length kept = length xs" and "xs \<noteq> []" and "\<not> kept ! 0"
  shows "length (keep kept xs) < length xs"
proof -
  have "(kept ! 0, xs ! 0) \<in> set (zip kept xs)"
    using assms(1,2) by (cases kept; cases xs) simp_all
  moreover have "\<not> fst (kept ! 0, xs ! 0)" using assms(3) by simp
  ultimately have "length (filter fst (zip kept xs)) < length (zip kept xs)"
    by (rule length_filter_less)
  then show ?thesis using assms(1) by (simp add: keep_def)
qed

lemma second_run_shorter:
  assumes "df s = Some d" and "price_series d" and "df_index d \<noteq> []"
  shows "\<exists>rows1 rows2.
           fst (preprocess_data s) = None
         \<and> processed_data (snd (preprocess_data s)) = Some rows1
         \<and> length rows1 = length (df_index d)
         \<and> fst (preprocess_data (snd (preprocess_data s))) = None
         \<and> processed_data (snd (preprocess_data (snd (preprocess_data s)))) = Some rows2
         \<and> length rows2 < length rows1
         \<and> df (snd (preprocess_data s)) \<noteq> df s"
proof -
  let ?P = "matches_close"
  let ?names = "[''rolling_ma'', ''rsi'', ''upper_band'', ''lower_band'']"
  from preprocess_price_series [OF assms(1,2)] obtain c0 rest close where
    f: "filter ?P (map fst (df_columns d)) = c0 # rest" and
    len: "length close = length (df_index d)" and
    fin: "list_all is_fin close" and
    run1: "preprocess_data s =
             (None, s\<lparr>df := Some (with_indicators (rename_columns c0 ''close'' d) close),
                      processed_data := Some (indicator_rows close),
                      timestamps := Some (df_index d)\<rparr>)"
    by blast
  let ?d1 = "rename_columns c0 ''close'' d"
  let ?d7 = "with_indicators ?d1 close"
  let ?s1 = "s\<lparr>df := Some ?d7, processed_data := Some (indicator_rows close),
                timestamps := Some (df_index d)\<rparr>"
  have ne: "close \<noteq> []" using len assms(3) by auto
  have dn: "distinct (map fst (df_columns d))"
    and u: "''close'' \<in> fst ` set (df_columns d) \<longrightarrow> c0 = ''close''"
    and allfin: "list_all (\<lambda>(n, c). list_all is_fin c) (df_columns d)"
    using assms(2) f unfolding price_series_def by auto
  have "c0 \<in> set (filter ?P (map fst (df_columns d)))" unfolding f by simp
  then have c0: "c0 \<in> fst ` set (df_columns d)" by auto
  have dn1: "distinct (map fst (df_columns ?d1))"
    unfolding rename_columns_def using map_of_renamed(1) [OF dn c0 u] by simp
  have dn7: "distinct (map fst (df_columns ?d7))"
    using dn1 by (rule distinct_with_indicators)
  have mcl: "?P ''close''" by code_simp
  have n1: "map fst (df_columns ?d1) = map (\<lambda>n. if n = c0 then ''close'' else n) (map fst (df_columns d))"
    by (simp add: rename_columns_def comp_def case_prod_beta)
  have "\<exists>r1. filter ?P (map fst (df_columns ?d1)) = ''close'' # r1"
    unfolding n1 using f mcl by (rule first_match_renamed)
  then obtain r1 where f1: "filter ?P (map fst (df_columns ?d1)) = ''close'' # r1" ..
  have "\<exists>r7. filter ?P (map fst (df_columns ?d7)) = ''close'' # r7"
    using f1 by (rule first_match_with_indicators)
  then obtain r7 where f7: "filter ?P (map fst (df_columns ?d7)) = ''close'' # r7" ..
  let ?d2 = "fillna_ffill ?d7"
  let ?d3 = "dropna ?d2"
  have "''close'' \<in> set (filter ?P (map fst (df_columns ?d7)))" unfolding f7 by simp
  then have "''close'' \<in> set (map fst (df_columns ?d3))"
    by (simp add: names_fillna_dropna)
  moreover have "distinct (map fst (df_columns ?d3))"
    using dn7 by (simp add: names_fillna_dropna)
  ultimately obtain c' where g: "getitem ?d3 ''close'' = [c']"
    using getitem_single by blast
  have run2: "preprocess_data ?s1 =
      (None, ?s1\<lparr>df := Some (with_indicators ?d3 c'),
                  processed_data := Some (values_of (with_indicators ?d3 c') ?names),
                  timestamps := Some (df_index (with_indicators ?d3 c'))\<rparr>)"
  proof -
    have dfs1: "df ?s1 = Some ?d7" by simp
    show ?thesis
      unfolding preprocess_data_def Let_def dfs1 option.case f7 list.case rename_same g
      unfolding with_indicators_def [symmetric] by simp
  qed
  have col: "(''rolling_ma'', rolling_ma close) \<in> set (df_columns ?d7)"
    by (rule rolling_ma_column)
  have hd: "isna (rolling_ma close ! 0)" using ne by (rule rolling_ma_head)
  have lr: "length (rolling_ma close) = length close"
    by (simp add: rolling_ma_def length_rolling_mean)
  have "(''rolling_ma'', ffill_from NaN (rolling_ma close)) \<in> set (df_columns ?d2)"
    using col by (force simp: fillna_ffill_def)
  moreover have "isna (ffill_from NaN (rolling_ma close) ! 0)"
    using hd ne lr by (intro ffill_from_head) auto
  ultimately have nrc: "\<not> row_complete ?d2 0"
    unfolding row_complete_def list_all_iff by force
  have ix2: "df_index ?d2 = df_index d"
    by (simp add: fillna_ffill_def df_index_with_indicators rename_columns_def)
  have "length (df_index ?d3) < length (df_index d)"
    unfolding df_index_dropna ix2
    using assms(3) nrc by (intro length_keep_less) (simp_all add: upt_conv_Cons)
  then have short: "length (values_of (with_indicators ?d3 c') ?names) < length (indicator_rows close)"
    by (simp add: length_values_of df_index_with_indicators length_indicator_rows len)
  have changed: "Some ?d7 \<noteq> df s"
  proof
    assume "Some ?d7 = df s"
    then have "?d7 = d" using assms(1) by simp
    with col have "(''rolling_ma'', rolling_ma close) \<in> set (df_columns d)" by simp
    with allfin have "list_all is_fin (rolling_ma close)"
      unfolding list_all_iff by auto
    moreover have "rolling_ma close ! 0 \<in> set (rolling_ma close)"
      using ne lr by (intro nth_mem) simp
    ultimately have "is_fin (rolling_ma close ! 0)" unfolding list_all_iff by blast
    with hd show False using is_fin_not_isna by blast
  qed
  show ?thesis
    unfolding run1 using run2 short changed
    by (simp add: length_indicator_rows len)
qed

lemma same_frame_same_output:
  assumes e: "df s = df s'"
  shows "fst (preprocess_data s) = fst (preprocess_data s')
       \<and> df (snd (preprocess_data s)) = df (snd (preprocess_data s'))
       \<and> (fst (preprocess_data s) = None \<longrightarrow>
             processed_data (snd (preprocess_data s)) = processed_data (snd (preprocess_data s'))
           \<and> timestamps (snd (preprocess_data s)) = timestamps (snd (preprocess_data s')))"
proof (cases "df s'")
  case None
  then show ?thesis using e by (simp add: preprocess_data_def)
next
  case (Some d0)
  note d0 = this
  show ?thesis
  proof (cases "filter matches_close (map fst (df_columns d0))")
    case Nil
    then show ?thesis using e d0 by (simp add: preprocess_data_def)
  next
    case (Cons c0 rest)
    let ?d3 = "dropna (fillna_ffill (rename_columns c0 ''close'' d0))"
    show ?thesis
    proof (cases "\<exists>close. getitem ?d3 ''close'' = [close]")
      case True
      then obtain close where "getitem ?d3 ''close'' = [close]" ..
      then show ?thesis using e d0 Cons by (simp add: preprocess_data_def Let_def)
    next
      case False
      then have "preprocess_data s = (Some FrameAssignedToColumn, s\<lparr>df := Some ?d3\<rparr>)"
        using e d0 Cons by (simp add: preprocess_data_def Let_def split: list.splits)
      moreover from False
      have "preprocess_data s' = (Some FrameAssignedToColumn, s'\<lparr>df := Some ?d3\<rparr>)"
        using d0 Cons by (simp add: preprocess_data_def Let_def split: list.splits)
      ultimately show ?thesis by simp
    qed
  qed
qed

text \<open>
  C2, as the code has it. What a call produces (the exception if any, the new
  \<^verbatim>\<open>self.df\<close> and, on success, \<^verbatim>\<open>processed_data\<close> and \<^verbatim>\<open>timestamps\<close>) is a function of
  the stored frame alone: two objects holding the same frame get identical output,
  whatever their other fields and their history. The call is not free of effects, though:
  it replaces the stored frame by the normalised frame with the four indicator columns.
  A second call on the same object therefore starts from that frame, drops at least its
  first row (the warm-up row, whose \<^verbatim>\<open>rolling_ma\<close> is null), and for a valid non-empty
  series yields a strictly shorter output than the first call.
\<close>

theorem preprocess_depends_on_stored_frame:
  "(df s = df s' \<longrightarrow>
       fst (preprocess_data s) = fst (preprocess_data s')
     \<and> df (snd (preprocess_data s)) = df (snd (preprocess_data s'))
     \<and> (fst (preprocess_data s) = None \<longrightarrow>
           processed_data (snd (preprocess_data s)) = processed_data (snd (preprocess_data s'))
         \<and> timestamps (snd (preprocess_data s)) = timestamps (snd (preprocess_data s'))))
   \<and> (df s = Some d \<and> price_series d \<and> df_index d \<noteq> [] \<longrightarrow>
        (\<exists>rows1 rows2.
           fst (preprocess_data s) = None
         \<and> processed_data (snd (preprocess_data s)) = Some rows1
         \<and> length rows1 = length (df_index d)
         \<and> fst (preprocess_data (snd (preprocess_data s))) = None
         \<and> processed_data (snd (preprocess_data (snd (preprocess_data s)))) = Some rows2
         \<and> length rows2 < length rows1
         \<and> df (snd (preprocess_data s)) \<noteq> df s))"
proof (intro conjI impI)
  assume e: "df s = df s'"
  note a = same_frame_same_output [OF e]
  show "fst (preprocess_data s) = fst (preprocess_data s')" using a by blast
  show "df (snd (preprocess_data s)) = df (snd (preprocess_data s'))" using a by blast
  assume n: "fst (preprocess_data s) = None"
  show "processed_data (snd (preprocess_data s)) = processed_data (snd (preprocess_data s'))"
    using a n by blast
  show "timestamps (snd (preprocess_data s)) = timestamps (snd (preprocess_data s'))"
    using a n by blast
next
  assume "df s = Some d \<and> price_series d \<and> df_index d \<noteq> []"
  then show "\<exists>rows1 rows2.
           fst (preprocess_data s) = None
         \<and> processed_data (snd (preprocess_data s)) = Some rows1
         \<and> length rows1 = length (df_index d)
         \<and> fst (preprocess_data (snd (preprocess_data s))) = None
         \<and> processed_data (snd (preprocess_data (snd (preprocess_data s)))) = Some rows2
         \<and> length rows2 < length rows1
         \<and> df (snd (preprocess_data s)) \<noteq> df s"
    using second_run_shorter by blast
qed

theorem preprocess_depends_on_stored_frame_witness:
  "fst (preprocess_data (retrieved (bars [1, 2] [5, 6])))
     = fst (preprocess_data ((retrieved (bars [1, 2] [5, 6]))
              \<lparr>api_key := ''other'', processed_data := Some [[Fin 1]]\<rparr>))
   \<and> processed_data (snd (preprocess_data (retrieved (bars [1, 2] [5, 6]))))
     = processed_data (snd (preprocess_data ((retrieved (bars [1, 2] [5, 6]))
              \<lparr>api_key := ''other'', processed_data := Some [[Fin 1]]\<rparr>)))
   \<and> (\<exists>rows1 rows2.
         processed_data (snd (preprocess_data (retrieved (bars [1, 2] [5, 6])))) = Some rows1
       \<and> length rows1 = 2
       \<and> processed_data (snd (preprocess_data (snd (preprocess_data
            (retrieved (bars [1, 2] [5, 6])))))) = Some rows2
       \<and> length rows2 < 2)"
proof -
  let ?s = "retrieved (bars [1, 2] [5, 6])"
  let ?s' = "?s\<lparr>api_key := ''other'', processed_data := Some [[Fin 1]]\<rparr>"
  have h1: "df ?s = df ?s'" by simp
  have h2: "df ?s = Some (bars [1, 2] [5, 6]) \<and> price_series (bars [1, 2] [5, 6])
              \<and> df_index (bars [1, 2] [5, 6]) \<noteq> []"
    using bars_price_series [of "[1, 2]" "[5, 6]"] by (simp add: bars_df) (simp add: bars_def)
  have ix: "length (df_index (bars [1, 2] [5, 6])) = 2" by (simp add: bars_def)
  note t = preprocess_depends_on_stored_frame [of ?s ?s' "bars [1, 2] [5, 6]"]
  from t [THEN conjunct2, THEN mp, OF h2] obtain rows1 rows2 where
    r: "fst (preprocess_data ?s) = None"
       "processed_data (snd (preprocess_data ?s)) = Some rows1"
       "length rows1 = 2"
       "processed_data (snd (preprocess_data (snd (preprocess_data ?s)))) = Some rows2"
       "length rows2 < length rows1"
    unfolding ix by blast
  note a = t [THEN conjunct1, THEN mp, OF h1]
  have a1: "fst (preprocess_data ?s) = fst (preprocess_data ?s')"
    using a by (rule conjunct1)
  have a2: "processed_data (snd (preprocess_data ?s)) = processed_data (snd (preprocess_data ?s'))"
    using a [THEN conjunct2, THEN conjunct2, THEN mp, OF r(1)] by (rule conjunct1)
  from r(5) have "length rows2 < 2" unfolding r(3) .
  with r(2,3,4) have "\<exists>rows1 rows2.
         processed_data (snd (preprocess_data ?s)) = Some rows1
       \<and> length rows1 = 2
       \<and> processed_data (snd (preprocess_data (snd (preprocess_data ?s)))) = Some rows2
       \<and> length rows2 < 2" by blast
  with a1 a2 show ?thesis by blast
qed

theorem preprocess_depends_on_stored_frame_counterexample:
  "processed_data (snd (preprocess_data (retrieved (bars [1, 2] [5, 6]))))
     = Some [[NaN, NaN, NaN, NaN], [NaN, NaN, NaN, NaN]]
   \<and> processed_data (snd (preprocess_data (snd (preprocess_data
        (retrieved (bars [1, 2] [5, 6])))))) = Some []
   \<and> df (snd (preprocess_data (retrieved (bars [1, 2] [5, 6]))))
       \<noteq> df (retrieved (bars [1, 2] [5, 6]))"
proof -
  have mc: "\<not> matches_close ''1. open''" "matches_close ''4. close''" "matches_close ''close''"
    by code_simp+
  note defs = preprocess_data_def rename_columns_def fillna_ffill_def
      dropna_def row_complete_def keep_def getitem_def setitem_def values_of_def
      rolling_ma_def rsi_def upper_band_def lower_band_def rolling_mean_def rolling_std_def
      avg_gain_def avg_loss_def gain_def loss_def diff_def where_series_def window_def
      observations_def rsi_cell_def fsub_def fgt_def period_def rolling_window_def
      std_multiplier_def Let_def upt_rec_numeral
  let ?s1 = "\<lparr>api_key = ''demo'', interval = Some ''1min'', symbol = Some ''IBM'',
       df = Some \<lparr>df_index = [1, 2],
                  df_columns = [(''1. open'', [Fin 5, Fin 6]), (''close'', [Fin 5, Fin 6]),
                                (''5. volume'', [Fin 100, Fin 100]),
                                (''rolling_ma'', [NaN, NaN]), (''rsi'', [NaN, NaN]),
                                (''upper_band'', [NaN, NaN]), (''lower_band'', [NaN, NaN])]\<rparr>,
       timestamps = Some [1, 2],
       processed_data = Some [[NaN, NaN, NaN, NaN], [NaN, NaN, NaN, NaN]]\<rparr>"
  have run1: "preprocess_data (retrieved (bars [1, 2] [5, 6])) = (None, ?s1)"
    by (simp add: retrieved_def bars_def mc defs)
  have run2: "processed_data (snd (preprocess_data ?s1)) = Some []"
    by (simp add: mc defs)
  show ?thesis
    unfolding run1 snd_conv run2 by (simp add: retrieved_def bars_def)
qed

section \<open>Properties of the intraday iterator\<close>

lemma next_row_yield:
  assumes "data s = Some d" and "Suc (index s) < length d"
  shows "next_row s = (Inr (d ! index s), s\<lparr>index := Suc (index s)\<rparr>)"
  using assms by (simp add: next_row_def has_next_def)

lemma next_row_stop:
  assumes "data s = Some d" and "length d \<le> Suc (index s)"
  shows "next_row s = (Inl StopIteration, s)"
  using assms by (simp add: next_row_def has_next_def)

lemma next_calls_stopped:
  assumes "data s = Some d" and "length d \<le> Suc (index s)"
  shows "next_calls k s = (replicate k (Inl StopIteration), s)"
  using assms by (induction k) (simp_all add: next_row_stop)

lemma next_calls_from:
  assumes "data s = Some d" and "Suc (index s) \<le> length d"
  shows "fst (next_calls k s) =
           map Inr (take (min k (length d - 1 - index s)) (drop (index s) d))
           @ replicate (k - (length d - 1 - index s)) (Inl StopIteration)"
  using assms
proof (induction k arbitrary: s)
  case 0
  then show ?case by simp
next
  case (Suc k)
  show ?case
  proof (cases "Suc (index s) < length d")
    case True
    let ?s' = "s\<lparr>index := Suc (index s)\<rparr>"
    have step: "next_row s = (Inr (d ! index s), ?s')"
      using Suc.prems(1) True by (rule next_row_yield)
    have ih: "fst (next_calls k ?s') =
           map Inr (take (min k (length d - 1 - Suc (index s))) (drop (Suc (index s)) d))
           @ replicate (k - (length d - 1 - Suc (index s))) (Inl StopIteration)"
      using Suc.IH [of ?s'] Suc.prems(1) True by simp
    have "0 < length d - 1 - index s" using True by simp
    then obtain m where m: "length d - 1 - index s = Suc m"
      using gr0_conv_Suc by blast
    have m': "length d - 1 - Suc (index s) = m"
      using m by simp
    have dr: "drop (index s) d = d ! index s # drop (Suc (index s)) d"
      using True by (simp add: Cons_nth_drop_Suc)
    have unf: "fst (next_calls (Suc k) s) = Inr (d ! index s) # fst (next_calls k ?s')"
      by (simp add: step split: prod.splits)
    show ?thesis
      unfolding unf ih m m' dr by simp
  next
    case False
    then have stop: "length d \<le> Suc (index s)" by simp
    have all_stop: "fst (next_calls (Suc k) s) = replicate (Suc k) (Inl StopIteration)"
      by (simp only: next_calls_stopped [OF Suc.prems(1) stop] fst_conv)
    show ?thesis
      unfolding all_stop using stop by simp
  qed
qed

text \<open>
  C10. For a retrieved intraday series of length \<open>n \<ge> 1\<close> and the cursor at 0, the outcomes
  of \<open>k\<close> successive \<^verbatim>\<open>next()\<close> calls are the first \<open>n - 1\<close> rows in index order (as many of
  them as \<open>k\<close> allows), and \<^verbatim>\<open>StopIteration\<close> for every call after those: the last row of
  the series is never yielded.
\<close>

theorem next_skips_last_row:
  assumes "data s = Some d" and "index s = 0" and "1 \<le> length d"
  shows "fst (next_calls k s) =
           map Inr (take (min k (length d - 1)) d)
           @ replicate (k - (length d - 1)) (Inl StopIteration)"
  using next_calls_from [of s d k] assms by simp

theorem next_skips_last_row_witness:
  "fst (next_calls 4 \<lparr>i_api_key = ''k'', base_url = ''u'',
          data = Some [(1, [Fin 1]), (2, [Fin 2]), (3, [Fin 3])], index = 0\<rparr>)
     = [Inr (1, [Fin 1]), Inr (2, [Fin 2]), Inl StopIteration, Inl StopIteration]"
  using next_skips_last_row [of "\<lparr>i_api_key = ''k'', base_url = ''u'',
          data = Some [(1, [Fin 1]), (2, [Fin 2]), (3, [Fin 3])], index = 0\<rparr>"
          "[(1, [Fin 1]), (2, [Fin 2]), (3, [Fin 3])]" 4]
  by (simp add: numeral_eq_Suc)

end
